theory Spec2Isabelle
  imports Complex_Main
begin

section \<open>Numbers interpolated into a template string\<close>

text \<open>
  The cache key interpolates \<open>k\<close>, the probes count and the length of the filter's text
  into a template literal. For integer values that is their decimal rendering, with a
  leading minus sign for a negative one.
\<close>

definition digit_char :: "nat \<Rightarrow> char" where
  "digit_char d = ''0123456789'' ! d"

function show_nat :: "nat \<Rightarrow> string" where
  "show_nat n = (if n < 10 then [digit_char n] else show_nat (n div 10) @ [digit_char (n mod 10)])"
  by pat_completeness auto
termination
  by (relation "measure id") auto

definition show_int :: "int \<Rightarrow> string" where
  "show_int i = (if i < 0 then CHR ''-'' # show_nat (nat (- i)) else show_nat (nat i))"

text \<open>\<open>Array.prototype.join\<close>: the elements with the separator between neighbours.\<close>

fun join :: "string \<Rightarrow> string list \<Rightarrow> string" where
  "join sep [] = []"
| "join sep [x] = x"
| "join sep (x # y # ys) = x @ sep @ join sep (y # ys)"

section \<open>The store of result arrays\<close>

text \<open>
  A result array is a mutable object whose elements are references to result records,
  which are mutable objects too. The engine, the backend and the caller can hold
  references to the same array and to the same records. The store has two levels: the
  arrays allocated so far, each a list of references to records, and the records allocated
  so far, each a value of the open type \<open>'r\<close>. A reference is an index.
\<close>

type_synonym addr = nat

record 'r heap =
  arrays :: "addr list list"
  objects :: "'r list"

text \<open>
  The array the backend hands over: records it has just created, one for each result, and
  a new array of the references to them.
\<close>

definition new_refs :: "'r heap \<Rightarrow> 'r list \<Rightarrow> addr list" where
  "new_refs h rs = [length (objects h) ..< length (objects h) + length rs]"

definition newResults :: "'r heap \<Rightarrow> 'r list \<Rightarrow> addr \<times> 'r heap" where
  "newResults h rs =
     (length (arrays h),
      h\<lparr>arrays := arrays h @ [new_refs h rs], objects := objects h @ rs\<rparr>)"

text \<open>
  \<open>spread\<close> is the array literal \<open>[...xs]\<close>: a new array with the elements of the old
  one, that is, with references to the same records. No record is copied.
\<close>

definition spread :: "'r heap \<Rightarrow> addr \<Rightarrow> addr \<times> 'r heap" where
  "spread h a = (length (arrays h), h\<lparr>arrays := arrays h @ [arrays h ! a]\<rparr>)"

text \<open>What one reads through an array: the records its elements refer to.\<close>

definition contents :: "'r heap \<Rightarrow> addr \<Rightarrow> 'r list" where
  "contents h a = map (\<lambda>r. objects h ! r) (arrays h ! a)"

text \<open>
  What a caller can do with an array it holds. It can change the array itself, by
  assigning to its slots, pushing, popping, splicing or sorting, after which the array
  holds some other list of references; records the caller creates on the way are new
  ones. And it can change a record the array refers to, by assigning to its fields.
\<close>

definition overwrite :: "'r heap \<Rightarrow> addr \<Rightarrow> addr list \<Rightarrow> 'r list \<Rightarrow> 'r heap" where
  "overwrite h a refs created =
     h\<lparr>arrays := (arrays h)[a := refs], objects := objects h @ created\<rparr>"

definition mutate :: "'r heap \<Rightarrow> addr \<Rightarrow> 'r \<Rightarrow> 'r heap" where
  "mutate h r v = h\<lparr>objects := (objects h)[r := v]\<rparr>"

section \<open>The result cache\<close>

text \<open>
  Modelled from the spec: the class \<open>LRUCache\<close> comes from the package \<open>lru-cache\<close>, which
  is not part of the sources. Section 4.2 of the specification describes it as a
  capacity-bounded key/value store in which insertion and access update recency and
  eviction removes the least-recently-used entry. The entries are kept most recently
  used first.
\<close>

record ('k, 'v) LRUCache =
  entries :: "('k \<times> 'v) list"
  max_entries :: nat

text \<open>Modelled from the spec: the constructor with the option \<open>max\<close>.\<close>

definition lru_new :: "nat \<Rightarrow> ('k, 'v) LRUCache" where
  "lru_new n = \<lparr>entries = [], max_entries = n\<rparr>"

text \<open>Modelled from the spec: an entry leaves its place in the recency order.\<close>

definition lru_remove :: "'k \<Rightarrow> ('k \<times> 'v) list \<Rightarrow> ('k \<times> 'v) list" where
  "lru_remove k es = filter (\<lambda>p. fst p \<noteq> k) es"

text \<open>
  Modelled from the spec: \<open>get(key)\<close> returns the stored value, if there is one, and marks
  the entry most recently used.
\<close>

definition lru_get :: "('k, 'v) LRUCache \<Rightarrow> 'k \<Rightarrow> 'v option \<times> ('k, 'v) LRUCache" where
  "lru_get c k =
     (case map_of (entries c) k of
        None \<Rightarrow> (None, c)
      | Some v \<Rightarrow> (Some v, c\<lparr>entries := (k, v) # lru_remove k (entries c)\<rparr>))"

text \<open>
  Modelled from the spec: \<open>set(key, value)\<close> stores the value as the most recently used
  entry; if the key is new and the cache is at capacity, the least recently used entry is
  evicted first.
\<close>

definition lru_set :: "('k, 'v) LRUCache \<Rightarrow> 'k \<Rightarrow> 'v \<Rightarrow> ('k, 'v) LRUCache" where
  "lru_set c k v =
     (case map_of (entries c) k of
        Some _ \<Rightarrow> c\<lparr>entries := (k, v) # lru_remove k (entries c)\<rparr>
      | None \<Rightarrow>
          if max_entries c \<le> length (entries c)
          then c\<lparr>entries := (k, v) # butlast (entries c)\<rparr>
          else c\<lparr>entries := (k, v) # entries c\<rparr>)"

text \<open>Modelled from the spec: \<open>clear()\<close> and the \<open>size\<close> accessor.\<close>

definition lru_clear :: "('k, 'v) LRUCache \<Rightarrow> ('k, 'v) LRUCache" where
  "lru_clear c = c\<lparr>entries := []\<rparr>"

definition lru_size :: "('k, 'v) LRUCache \<Rightarrow> nat" where
  "lru_size c = length (entries c)"

section \<open>The data of the engine\<close>

text \<open>
  \<open>Vector\<close> is a plain array of numbers or a \<open>Float32Array\<close>. The numbers are of a type
  \<open>'x\<close> that the model leaves open, with the two operations the engine applies to them
  supplied by the runtime: the conversion to single precision that \<open>new Float32Array\<close>
  performs and \<open>toFixed(4)\<close>. A filter is a value of an open type \<open>'f\<close>; the engine only
  ever asks for its text, \<open>toString()\<close>.
\<close>

datatype 'x Vector = NumberArray "'x list" | Float32Array "'x list"

record ('x, 'f) runtime =
  toFloat32 :: "'x \<Rightarrow> 'x"
  toFixed4 :: "'x \<Rightarrow> string"
  toString :: "'f \<Rightarrow> string"

text \<open>
  Modelled from the spec: the type \<open>SearchOptions\<close> is declared outside the sources. It
  has the optional filter, the optional probes count, a distance metric (the field the
  engine fills in for the backend) and any other backend-specific knobs, kept here as a
  list of named values of an open type \<open>'o\<close>.
\<close>

record ('f, 'o) SearchOptions =
  filter_opt :: "'f option"
  distanceMetric :: "string option"
  probes :: "int option"
  rest :: "(string \<times> 'o) list"

text \<open>
  \<open>KNNOptionsPartitioned\<close> is what the constructor receives, every field optional;
  \<open>knn_options\<close> is the merged \<open>Required<KNNOptionsPartitioned>\<close> the engine keeps.
\<close>

record KNNOptionsPartitioned =
  metric_arg :: "string option"
  cacheResults_arg :: "bool option"

record knn_options =
  metric :: string
  cacheResults :: bool

record knn_stats =
  calls :: nat
  totalTime :: real
  lastSearchTime :: real
  cacheHits :: nat
  cacheMisses :: nat

record KNNEngineSearch =
  options :: knn_options
  resultCache :: "(string, addr) LRUCache"
  stats :: knn_stats

text \<open>
  The result of a division of two numbers: division by zero raises nothing, it gives
  \<open>NaN\<close> for \<open>0 / 0\<close> and an infinity of the sign of the dividend otherwise. (The divisor
  here is a count, so a zero divisor is the positive zero.)
\<close>

datatype jsnum = Finite real | NaN | Infinity | NegInfinity

definition js_div :: "real \<Rightarrow> real \<Rightarrow> jsnum" where
  "js_div x y =
     (if y \<noteq> 0 then Finite (x / y)
      else if x = 0 then NaN
      else if 0 < x then Infinity
      else NegInfinity)"

record KNNStatsPartitioned = knn_stats +
  avgTime :: jsnum
  cachedResultsCount :: nat
  stat_options :: knn_options

text \<open>
  The backend is \<open>PartitionedVectorDB.findNearest\<close>: it receives the query, \<open>k\<close> and an
  options object and either fails with an error of type \<open>'e\<close> or hands over results:
  records it has created for this call, in a new array. What one call of the engine
  observes of it is a function of the request.
\<close>

type_synonym ('x, 'f, 'o) request = "'x list \<times> int \<times> ('f, 'o) SearchOptions"
type_synonym ('x, 'f, 'o, 'e, 'r) backend = "('x, 'f, 'o) request \<Rightarrow> 'e + 'r list"

text \<open>
  What a call of \<open>findNearest\<close> leaves behind: the value returned or the error thrown, the
  engine and the store after the call, and the request sent to the backend, if one was.
\<close>

record ('x, 'f, 'o, 'e, 'r) ret =
  outcome :: "'e + addr"
  engine :: KNNEngineSearch
  store :: "'r heap"
  sent :: "('x, 'f, 'o) request option"

text \<open>What the caller reads, when the call returns, through the array it returned.\<close>

definition returned :: "('x, 'f, 'o, 'e, 'r) ret \<Rightarrow> 'r list option" where
  "returned r =
     (case outcome r of Inl err \<Rightarrow> None | Inr a \<Rightarrow> Some (contents (store r) a))"

section \<open>The engine\<close>

definition KNNEngineSearch_new :: "KNNOptionsPartitioned \<Rightarrow> KNNEngineSearch" where
  "KNNEngineSearch_new opts =
     \<lparr>options =
        \<lparr>metric = (case metric_arg opts of Some m \<Rightarrow> m | None \<Rightarrow> ''euclidean''),
         cacheResults = (case cacheResults_arg opts of Some b \<Rightarrow> b | None \<Rightarrow> True)\<rparr>,
      resultCache = lru_new 1000,
      stats = \<lparr>calls = 0, totalTime = 0, lastSearchTime = 0, cacheHits = 0, cacheMisses = 0\<rparr>\<rparr>"

text \<open>
  \<open>_getCacheKey\<close>, with its three local constants as definitions of their own. An
  absent filter and an absent probes count are \<open>None\<close>. A filter that is present is a
  function, hence truthy. The test \<open>options.probes ? ... : ""\<close> is on the truthiness
  of the number, so a probes count of 0 takes the same branch as an absent one.
\<close>

definition queryHash :: "('x, 'f) runtime \<Rightarrow> 'x list \<Rightarrow> string" where
  "queryHash rt query = join '','' (map (toFixed4 rt) query)"

definition filterInfo :: "('x, 'f) runtime \<Rightarrow> ('f, 'o) SearchOptions \<Rightarrow> string" where
  "filterInfo rt opts =
     (case filter_opt opts of
        Some f \<Rightarrow> ''filterHash:'' @ show_nat (length (toString rt f))
      | None \<Rightarrow> ''noFilter'')"

definition probesInfo :: "('f, 'o) SearchOptions \<Rightarrow> string" where
  "probesInfo opts =
     (case probes opts of
        Some p \<Rightarrow> if p \<noteq> 0 then ''probes'' @ show_int p else []
      | None \<Rightarrow> [])"

definition getCacheKey ::
  "('x, 'f) runtime \<Rightarrow> KNNEngineSearch \<Rightarrow> 'x list \<Rightarrow> int \<Rightarrow> ('f, 'o) SearchOptions \<Rightarrow> string" where
  "getCacheKey rt this query k opts =
     queryHash rt query @ ''_k'' @ show_int k @ ''_'' @ metric (options this) @ ''_''
       @ filterInfo rt opts @ ''_'' @ probesInfo opts"

text \<open>
  Lines 118-119: a \<open>Float32Array\<close> is used as it is, a plain array is converted
  element by element.
\<close>

definition typedQuery_of :: "('x, 'f) runtime \<Rightarrow> 'x Vector \<Rightarrow> 'x list" where
  "typedQuery_of rt query =
     (case query of
        Float32Array xs \<Rightarrow> xs
      | NumberArray xs \<Rightarrow> map (toFloat32 rt) xs)"

text \<open>The two statements that close a call that returns: lines 127-129 and 160-162.\<close>

definition recordTime :: "real \<Rightarrow> knn_stats \<Rightarrow> knn_stats" where
  "recordTime searchTime st =
     st\<lparr>lastSearchTime := searchTime, totalTime := totalTime st + searchTime\<rparr>"

text \<open>
  The arguments of \<open>this.db.findNearest\<close> (lines 141-146): the typed query, \<open>k\<close> and
  an object literal with exactly the three properties \<open>filter\<close>, \<open>distanceMetric\<close> and
  \<open>probes\<close>.
\<close>

definition backendRequest ::
  "KNNEngineSearch \<Rightarrow> 'x list \<Rightarrow> int \<Rightarrow> ('f, 'o) SearchOptions \<Rightarrow> ('x, 'f, 'o) request" where
  "backendRequest this typedQuery k opts =
     (typedQuery, k,
      \<lparr>filter_opt = filter_opt opts,
       distanceMetric = Some (metric (options this)),
       probes = probes opts,
       rest = []\<rparr>)"

text \<open>
  The part of \<open>findNearest\<close> after the cache check (lines 139-165): the call of the
  backend inside \<open>try\<close>, the rethrow, the population of the cache and the timing.
  \<open>results\<close> is the array the backend hands over; the cache receives \<open>[...results]\<close> and
  the caller \<open>results\<close> itself.
\<close>

definition callBackend ::
  "('x, 'f) runtime \<Rightarrow> ('x, 'f, 'o, 'e, 'r) backend \<Rightarrow> real \<Rightarrow> KNNEngineSearch \<Rightarrow> 'r heap
     \<Rightarrow> 'x list \<Rightarrow> int \<Rightarrow> ('f, 'o) SearchOptions \<Rightarrow> ('x, 'f, 'o, 'e, 'r) ret" where
  "callBackend rt db elapsed this h typedQuery k opts =
     (let req = backendRequest this typedQuery k opts
      in case db req of
           Inl err \<Rightarrow> \<lparr>outcome = Inl err, engine = this, store = h, sent = Some req\<rparr>
         | Inr rs \<Rightarrow>
             (let (results, h1) = newResults h rs;
                  (this1, h2) =
                    (if cacheResults (options this)
                     then (let cacheKey = getCacheKey rt this typedQuery k opts;
                               (copy, h') = spread h1 results
                           in (this\<lparr>resultCache := lru_set (resultCache this) cacheKey copy\<rparr>, h'))
                     else (this, h1));
                  this2 = this1\<lparr>stats := recordTime elapsed (stats this1)\<rparr>
              in \<lparr>outcome = Inr results, engine = this2, store = h2, sent = Some req\<rparr>))"

text \<open>
  \<open>findNearest\<close>. \<open>elapsed\<close> is the reading \<open>timer.getElapsed\<close> gives in this call (at most
  one is taken on any path); the timer itself lives outside the sources.
\<close>

definition findNearest ::
  "('x, 'f) runtime \<Rightarrow> ('x, 'f, 'o, 'e, 'r) backend \<Rightarrow> real \<Rightarrow> KNNEngineSearch \<Rightarrow> 'r heap
     \<Rightarrow> 'x Vector \<Rightarrow> int \<Rightarrow> ('f, 'o) SearchOptions \<Rightarrow> ('x, 'f, 'o, 'e, 'r) ret" where
  "findNearest rt db elapsed this0 h query k opts =
     (let this = this0\<lparr>stats := (stats this0)\<lparr>calls := calls (stats this0) + 1\<rparr>\<rparr>;
          typedQuery = typedQuery_of rt query
      in if cacheResults (options this)
         then (let cacheKey = getCacheKey rt this typedQuery k opts;
                   (cachedResults, cache) = lru_get (resultCache this) cacheKey
               in case cachedResults of
                    Some cached \<Rightarrow>
                      (let st = (stats this)\<lparr>cacheHits := cacheHits (stats this) + 1\<rparr>;
                           (copy, h') = spread h cached
                       in \<lparr>outcome = Inr copy,
                           engine = this\<lparr>resultCache := cache, stats := recordTime elapsed st\<rparr>,
                           store = h', sent = None\<rparr>)
                  | None \<Rightarrow>
                      callBackend rt db elapsed
                        (this\<lparr>resultCache := cache,
                              stats := (stats this)\<lparr>cacheMisses := cacheMisses (stats this) + 1\<rparr>\<rparr>)
                        h typedQuery k opts)
         else callBackend rt db elapsed this h typedQuery k opts)"

definition getStats :: "KNNEngineSearch \<Rightarrow> KNNStatsPartitioned" where
  "getStats this =
     \<lparr>calls = calls (stats this),
      totalTime = totalTime (stats this),
      lastSearchTime = lastSearchTime (stats this),
      cacheHits = cacheHits (stats this),
      cacheMisses = cacheMisses (stats this),
      avgTime = (if calls (stats this) > 0
                 then js_div (totalTime (stats this)) (real (calls (stats this)))
                 else Finite 0),
      cachedResultsCount = lru_size (resultCache this),
      stat_options = options this\<rparr>"

definition clearCache :: "KNNEngineSearch \<Rightarrow> KNNEngineSearch" where
  "clearCache this = this\<lparr>resultCache := lru_clear (resultCache this)\<rparr>"

text \<open>
  An engine with the same cache and statistics and another metric in its configuration.
  The class offers no operation that does this: the configuration is fixed by the
  constructor. It serves to compare the keys of two configurations over one cache.
\<close>

definition with_metric :: "string \<Rightarrow> KNNEngineSearch \<Rightarrow> KNNEngineSearch" where
  "with_metric m this = this\<lparr>options := (options this)\<lparr>metric := m\<rparr>\<rparr>"

section \<open>Sequences of calls\<close>

text \<open>
  One invocation of \<open>findNearest\<close> with what the environment contributes to it: the
  behaviour of the backend at that moment and the timer reading. A call that throws leaves
  the engine as it was when the error was rethrown, and the next call goes on from there.
\<close>

record ('x, 'f, 'o, 'e, 'r) call =
  call_db :: "('x, 'f, 'o, 'e, 'r) backend"
  call_elapsed :: real
  call_query :: "'x Vector"
  call_k :: int
  call_opts :: "('f, 'o) SearchOptions"

fun run ::
  "('x, 'f) runtime \<Rightarrow> ('x, 'f, 'o, 'e, 'r) call list \<Rightarrow> KNNEngineSearch \<times> 'r heap
     \<Rightarrow> KNNEngineSearch \<times> 'r heap" where
  "run rt [] (this, h) = (this, h)"
| "run rt (c # cs) (this, h) =
     (let r = findNearest rt (call_db c) (call_elapsed c) this h (call_query c) (call_k c)
                (call_opts c)
      in run rt cs (engine r, store r))"

text \<open>Operations on the result cache alone, for sequences of them.\<close>

datatype ('k, 'v) lru_op = Get 'k | Set 'k 'v

fun lru_apply :: "('k, 'v) LRUCache \<Rightarrow> ('k, 'v) lru_op \<Rightarrow> ('k, 'v) LRUCache" where
  "lru_apply c (Get k) = snd (lru_get c k)"
| "lru_apply c (Set k v) = lru_set c k v"

section \<open>Concrete instances\<close>

text \<open>
  A runtime for queries whose components are small integers, which single precision
  represents exactly and \<open>toFixed(4)\<close> prints with four zeros after the point, and for
  filters given by their text; results, errors and the values of further options are
  strings. Two backends: one that answers every request with the same results and one that
  fails on every request. A store in which nothing has been allocated.
\<close>

definition empty_heap :: "string heap" where
  "empty_heap = \<lparr>arrays = [], objects = []\<rparr>"

definition int_runtime :: "(int, string) runtime" where
  "int_runtime =
     \<lparr>toFloat32 = (\<lambda>x. x), toFixed4 = (\<lambda>x. show_int x @ ''.0000''), toString = (\<lambda>s. s)\<rparr>"

definition answering :: "string list \<Rightarrow> (int, string, string, string, string) backend" where
  "answering rs = (\<lambda>req. Inr rs)"

definition failing :: "string \<Rightarrow> (int, string, string, string, string) backend" where
  "failing err = (\<lambda>req. Inl err)"

definition no_options :: "(string, string) SearchOptions" where
  "no_options = \<lparr>filter_opt = None, distanceMetric = None, probes = None, rest = []\<rparr>"

definition default_engine :: KNNEngineSearch where
  "default_engine = KNNEngineSearch_new \<lparr>metric_arg = None, cacheResults_arg = None\<rparr>"

text \<open>
  The first of the example calls on a new engine, and per-call options with a probes
  count of 0.
\<close>

definition example_first :: "(int, string, string, string, string) ret" where
  "example_first =
     findNearest int_runtime (answering [''a'', ''b'']) 3 default_engine empty_heap
       (NumberArray [1, 2]) 5 no_options"

definition zero_probes :: "(string, string) SearchOptions" where
  "zero_probes = no_options\<lparr>probes := Some 0\<rparr>"

text \<open>
  A cache of capacity 2 after the insertion of \<open>A\<close>, the insertion of \<open>B\<close> and an access
  to \<open>A\<close>; two filters whose texts are different and equally long.
\<close>

definition example_cache :: "(string, nat) LRUCache" where
  "example_cache = foldl lru_apply (lru_new 2) [Set ''A'' 1, Set ''B'' 2, Get ''A'']"

definition filter_gt :: string where
  "filter_gt = ''(id) => id > 10''"

definition filter_lt :: string where
  "filter_lt = ''(id) => id < 99''"

text \<open>Per-call options with one more knob for the backend.\<close>

definition extra_options :: "(string, string) SearchOptions" where
  "extra_options = no_options\<lparr>rest := [(''includeMetadata'', ''true'')]\<rparr>"

text \<open>
  Three calls in a row: a query that the backend answers, the same query again, and
  another query on which the backend fails.
\<close>

definition example_calls :: "(int, string, string, string, string) call list" where
  "example_calls =
     [\<lparr>call_db = answering [''a'', ''b''], call_elapsed = 3, call_query = NumberArray [1, 2],
       call_k = 5, call_opts = no_options\<rparr>,
      \<lparr>call_db = answering [''c''], call_elapsed = 1, call_query = NumberArray [1, 2],
       call_k = 5, call_opts = no_options\<rparr>,
      \<lparr>call_db = failing ''down'', call_elapsed = 2, call_query = NumberArray [7],
       call_k = 5, call_opts = no_options\<rparr>]"

section \<open>Well-formed states\<close>

text \<open>
  The cache holds each key once, no more entries than its capacity, and the capacity is
  positive. The cache of an engine has the capacity the constructor gave it. The
  references the cache holds are to arrays of the store, and the elements of those arrays
  are references to records of the store.
\<close>

definition lru_inv :: "('k, 'v) LRUCache \<Rightarrow> bool" where
  "lru_inv c \<longleftrightarrow>
     distinct (map fst (entries c)) \<and> length (entries c) \<le> max_entries c \<and> 0 < max_entries c"

definition cache_ok :: "KNNEngineSearch \<Rightarrow> bool" where
  "cache_ok this \<longleftrightarrow> lru_inv (resultCache this) \<and> max_entries (resultCache this) = 1000"

definition refs_valid :: "KNNEngineSearch \<Rightarrow> 'r heap \<Rightarrow> bool" where
  "refs_valid this h \<longleftrightarrow>
     list_all (\<lambda>p. snd p < length (arrays h)
                  \<and> list_all (\<lambda>r. r < length (objects h)) (arrays h ! snd p))
       (entries (resultCache this))"

text \<open>
  The engine after \<open>this.stats.calls++\<close> (line 116) and after
  \<open>this.stats.cacheMisses++\<close> (line 133).
\<close>

definition counted :: "KNNEngineSearch \<Rightarrow> KNNEngineSearch" where
  "counted this = this\<lparr>stats := (stats this)\<lparr>calls := calls (stats this) + 1\<rparr>\<rparr>"

definition missed :: "KNNEngineSearch \<Rightarrow> KNNEngineSearch" where
  "missed this = this\<lparr>stats := (stats this)\<lparr>cacheMisses := cacheMisses (stats this) + 1\<rparr>\<rparr>"

section \<open>Decimal renderings are injective\<close>

lemma digit_char_inj: "a < 10 \<Longrightarrow> b < 10 \<Longrightarrow> digit_char a = digit_char b \<Longrightarrow> a = b"
proof -
  assume a: "a < 10" and b: "b < 10" and e: "digit_char a = digit_char b"
  have d: "distinct ''0123456789''" by simp
  have l: "length ''0123456789'' = 10" by simp
  from e have "''0123456789'' ! a = ''0123456789'' ! b" by (simp only: digit_char_def)
  with d a b l show "a = b" by (metis nth_eq_iff_index_eq)
qed

lemma digit_char_not_minus: "d < 10 \<Longrightarrow> digit_char d \<noteq> CHR ''-''"
proof -
  assume "d < 10"
  then have "digit_char d \<in> set ''0123456789''"
    unfolding digit_char_def by (intro nth_mem) simp
  then show ?thesis by auto
qed

lemma show_nat_nonempty: "show_nat n \<noteq> []"
  by (subst show_nat.simps) simp

lemma show_nat_no_minus: "CHR ''-'' \<notin> set (show_nat n)"
proof (induction n rule: show_nat.induct)
  case (1 n)
  show ?case
  proof (cases "n < 10")
    case True
    then show ?thesis using digit_char_not_minus[of n] by (subst show_nat.simps) auto
  next
    case False
    then show ?thesis using 1 digit_char_not_minus[of "n mod 10"]
      by (subst show_nat.simps) auto
  qed
qed

lemma show_nat_inj: "show_nat n = show_nat m \<Longrightarrow> n = m"
proof (induction n arbitrary: m rule: show_nat.induct)
  case (1 n)
  show ?case
  proof (cases "n < 10")
    case n: True
    show ?thesis
    proof (cases "m < 10")
      case True
      with n 1(2) show ?thesis
        by (simp add: show_nat.simps[of n] show_nat.simps[of m] digit_char_inj)
    next
      case False
      with n 1(2) show_nat_nonempty[of "m div 10"] show ?thesis
        by (simp add: show_nat.simps[of n] show_nat.simps[of m])
    qed
  next
    case n: False
    show ?thesis
    proof (cases "m < 10")
      case True
      with n 1(2) show_nat_nonempty[of "n div 10"] show ?thesis
        by (simp add: show_nat.simps[of n] show_nat.simps[of m])
    next
      case False
      with n 1(2) have e: "show_nat (n div 10) = show_nat (m div 10)"
        and d: "digit_char (n mod 10) = digit_char (m mod 10)"
        by (simp_all add: show_nat.simps[of n] show_nat.simps[of m])
      from 1(1)[OF n e] have "n div 10 = m div 10" .
      moreover from d have "n mod 10 = m mod 10" by (simp add: digit_char_inj)
      ultimately show ?thesis by (metis div_mult_mod_eq)
    qed
  qed
qed

lemma show_int_inj: "show_int i = show_int j \<Longrightarrow> i = j"
proof -
  assume e: "show_int i = show_int j"
  have hd: "\<And>n. hd (show_nat n) \<noteq> CHR ''-''"
    using show_nat_no_minus show_nat_nonempty by (metis hd_in_set)
  have ne: "\<And>n xs. show_nat n \<noteq> CHR ''-'' # xs"
    using hd by (metis list.sel(1))
  show "i = j"
  proof (cases "i < 0")
    case i: True
    show ?thesis
    proof (cases "j < 0")
      case True
      with i e have "show_nat (nat (- i)) = show_nat (nat (- j))" by (simp add: show_int_def)
      then have "nat (- i) = nat (- j)" by (rule show_nat_inj)
      with i True show ?thesis by simp
    next
      case False
      with i e ne show ?thesis by (simp add: show_int_def) metis
    qed
  next
    case i: False
    show ?thesis
    proof (cases "j < 0")
      case True
      with i e ne show ?thesis by (simp add: show_int_def)
    next
      case False
      with i e have "show_nat (nat i) = show_nat (nat j)" by (simp add: show_int_def)
      then have "nat i = nat j" by (rule show_nat_inj)
      with i False show ?thesis by simp
    qed
  qed
qed

section \<open>Properties of the result cache\<close>

lemma length_lru_remove_less:
  "map_of es k = Some v \<Longrightarrow> length (lru_remove k es) < length es"
proof -
  assume "map_of es k = Some v"
  then have "(k, v) \<in> set es" by (rule map_of_SomeD)
  then have "length (filter (\<lambda>p. fst p \<noteq> k) es) < length es"
    by (rule length_filter_less) simp
  then show ?thesis by (simp add: lru_remove_def)
qed

lemma keys_lru_remove: "fst ` set (lru_remove k es) = fst ` set es - {k}"
  by (auto simp: lru_remove_def)

lemma distinct_lru_remove: "distinct (map fst es) \<Longrightarrow> distinct (map fst (lru_remove k es))"
  by (simp add: lru_remove_def distinct_map_filter)

lemma lru_get_miss: "map_of (entries c) k = None \<Longrightarrow> lru_get c k = (None, c)"
  by (simp add: lru_get_def)

lemma lru_get_hit:
  "map_of (entries c) k = Some v \<Longrightarrow>
     lru_get c k = (Some v, c\<lparr>entries := (k, v) # lru_remove k (entries c)\<rparr>)"
  by (simp add: lru_get_def)

lemma max_entries_lru_get: "max_entries (snd (lru_get c k)) = max_entries c"
  by (simp add: lru_get_def split: option.splits)

lemma max_entries_lru_set: "max_entries (lru_set c k v) = max_entries c"
  by (simp add: lru_set_def split: option.splits)

lemma keys_lru_get: "fst ` set (entries (snd (lru_get c k))) = fst ` set (entries c)"
proof (cases "map_of (entries c) k")
  case None
  then show ?thesis by (simp add: lru_get_miss)
next
  case (Some v)
  then have "k \<in> fst ` set (entries c)" by (metis domI dom_map_of_conv_image_fst)
  with Some show ?thesis by (auto simp: lru_get_hit keys_lru_remove)
qed

lemma keys_lru_set: "fst ` set (entries (lru_set c k v)) \<subseteq> insert k (fst ` set (entries c))"
proof (cases "map_of (entries c) k")
  case None
  have "set (butlast (entries c)) \<subseteq> set (entries c)" by (auto dest: in_set_butlastD)
  with None show ?thesis by (auto simp: lru_set_def)
next
  case (Some w)
  then show ?thesis by (auto simp: lru_set_def keys_lru_remove)
qed

lemma map_of_lru_set_same: "map_of (entries (lru_set c k v)) k = Some v"
  by (simp add: lru_set_def split: option.splits)

lemma lru_inv_new: "0 < n \<Longrightarrow> lru_inv (lru_new n)"
  by (simp add: lru_inv_def lru_new_def)

lemma lru_inv_get: "lru_inv c \<Longrightarrow> lru_inv (snd (lru_get c k))"
proof (cases "map_of (entries c) k")
  case None
  assume "lru_inv c"
  with None show ?thesis by (simp add: lru_get_miss)
next
  case (Some v)
  assume inv: "lru_inv c"
  from Some have "length (lru_remove k (entries c)) < length (entries c)"
    by (rule length_lru_remove_less)
  with inv Some show ?thesis
    by (auto simp: lru_get_hit lru_inv_def distinct_lru_remove keys_lru_remove)
qed

lemma lru_inv_set: "lru_inv c \<Longrightarrow> lru_inv (lru_set c k v)"
proof (cases "map_of (entries c) k")
  case None
  assume inv: "lru_inv c"
  from None have k: "k \<notin> fst ` set (entries c)" by (simp add: map_of_eq_None_iff)
  have sub: "set (butlast (entries c)) \<subseteq> set (entries c)" by (auto dest: in_set_butlastD)
  from inv have d: "distinct (map fst (butlast (entries c)))"
    by (simp add: lru_inv_def map_butlast distinct_butlast)
  from k sub have k': "k \<notin> fst ` set (butlast (entries c))" by auto
  from inv None k k' d show ?thesis
    by (auto simp: lru_set_def lru_inv_def)
next
  case (Some w)
  assume inv: "lru_inv c"
  from Some have "length (lru_remove k (entries c)) < length (entries c)"
    by (rule length_lru_remove_less)
  with inv Some show ?thesis
    by (auto simp: lru_set_def lru_inv_def distinct_lru_remove keys_lru_remove)
qed

lemma lru_inv_apply: "lru_inv c \<Longrightarrow> lru_inv (lru_apply c x)"
  by (cases x) (simp_all add: lru_inv_get lru_inv_set)

lemma lru_inv_fold: "lru_inv c \<Longrightarrow> lru_inv (foldl lru_apply c xs)"
  by (induction xs arbitrary: c) (simp_all add: lru_inv_apply)

section \<open>Properties of the store\<close>

lemma newResults_simps:
  "fst (newResults h rs) = length (arrays h)"
  "arrays (snd (newResults h rs)) = arrays h @ [new_refs h rs]"
  "objects (snd (newResults h rs)) = objects h @ rs"
  by (simp_all add: newResults_def)

lemma spread_simps:
  "fst (spread h a) = length (arrays h)"
  "arrays (snd (spread h a)) = arrays h @ [arrays h ! a]"
  "objects (snd (spread h a)) = objects h"
  by (simp_all add: spread_def)

lemma read_new_refs: "map (\<lambda>r. (objects h @ rs @ zs) ! r) (new_refs h rs) = rs"
proof (rule nth_equalityI)
  show "length (map (\<lambda>r. (objects h @ rs @ zs) ! r) (new_refs h rs)) = length rs"
    by (simp add: new_refs_def)
next
  fix i
  assume "i < length (map (\<lambda>r. (objects h @ rs @ zs) ! r) (new_refs h rs))"
  then have i: "i < length rs" by (simp add: new_refs_def)
  then have "new_refs h rs ! i = length (objects h) + i" by (simp add: new_refs_def)
  with i show "map (\<lambda>r. (objects h @ rs @ zs) ! r) (new_refs h rs) ! i = rs ! i"
    by (simp add: new_refs_def nth_append)
qed

lemma new_refs_bound: "r \<in> set (new_refs h rs) \<Longrightarrow> r < length (objects h) + length rs"
  by (simp add: new_refs_def)

lemma contents_miss_store:
  "contents (snd (spread (snd (newResults h rs)) (length (arrays h)))) (length (arrays h)) = rs"
  "contents (snd (spread (snd (newResults h rs)) (length (arrays h)))) (Suc (length (arrays h))) = rs"
  using read_new_refs[of h rs "[]"]
  by (simp_all add: contents_def spread_simps newResults_simps nth_append)

lemma contents_newResults: "contents (snd (newResults h rs)) (length (arrays h)) = rs"
  using read_new_refs[of h rs "[]"] by (simp add: contents_def newResults_simps)

lemma contents_spread:
  "contents (snd (spread h a)) (length (arrays h)) = contents h a"
  "b < length (arrays h) \<Longrightarrow> contents (snd (spread h a)) b = contents h b"
  by (simp_all add: contents_def spread_simps nth_append)

lemmas store_simps = newResults_simps spread_simps

section \<open>The paths through a call\<close>

lemma getCacheKey_options:
  "options a = options b \<Longrightarrow> getCacheKey rt a q k opts = getCacheKey rt b q k opts"
  by (simp add: getCacheKey_def)

lemma backendRequest_options:
  "options a = options b \<Longrightarrow> backendRequest a q k opts = backendRequest b q k opts"
  by (simp add: backendRequest_def)

lemma callBackend_fail:
  "db (backendRequest this q k opts) = Inl err \<Longrightarrow>
     callBackend rt db el this h q k opts =
       \<lparr>outcome = Inl err, engine = this, store = h, sent = Some (backendRequest this q k opts)\<rparr>"
  by (simp add: callBackend_def)

lemma callBackend_ok_cached:
  "db (backendRequest this q k opts) = Inr rs \<Longrightarrow> cacheResults (options this) \<Longrightarrow>
     callBackend rt db el this h q k opts =
       \<lparr>outcome = Inr (length (arrays h)),
        engine = this\<lparr>resultCache := lru_set (resultCache this) (getCacheKey rt this q k opts) (Suc (length (arrays h))),
                     stats := recordTime el (stats this)\<rparr>,
        store = snd (spread (snd (newResults h rs)) (length (arrays h))),
        sent = Some (backendRequest this q k opts)\<rparr>"
  by (simp add: callBackend_def newResults_def new_refs_def spread_def contents_def Let_def nth_append)

lemma callBackend_ok_uncached:
  "db (backendRequest this q k opts) = Inr rs \<Longrightarrow> \<not> cacheResults (options this) \<Longrightarrow>
     callBackend rt db el this h q k opts =
       \<lparr>outcome = Inr (length (arrays h)),
        engine = this\<lparr>stats := recordTime el (stats this)\<rparr>,
        store = snd (newResults h rs),
        sent = Some (backendRequest this q k opts)\<rparr>"
  by (simp add: callBackend_def newResults_def new_refs_def spread_def contents_def Let_def)

lemma findNearest_uncached:
  "\<not> cacheResults (options this) \<Longrightarrow>
     findNearest rt db el this h query k opts =
       callBackend rt db el (counted this) h (typedQuery_of rt query) k opts"
  by (simp add: findNearest_def counted_def Let_def)

lemma findNearest_miss:
  "cacheResults (options this) \<Longrightarrow>
   map_of (entries (resultCache this)) (getCacheKey rt this (typedQuery_of rt query) k opts) = None \<Longrightarrow>
     findNearest rt db el this h query k opts =
       callBackend rt db el (missed (counted this)) h (typedQuery_of rt query) k opts"
proof -
  assume c: "cacheResults (options this)"
    and m: "map_of (entries (resultCache this)) (getCacheKey rt this (typedQuery_of rt query) k opts) = None"
  have key: "getCacheKey rt (counted this) (typedQuery_of rt query) k opts
               = getCacheKey rt this (typedQuery_of rt query) k opts"
    by (rule getCacheKey_options) (simp add: counted_def)
  have g: "lru_get (resultCache this) (getCacheKey rt this (typedQuery_of rt query) k opts)
             = (None, resultCache this)"
    using m by (rule lru_get_miss)
  show ?thesis
    using c g key by (simp add: findNearest_def Let_def counted_def missed_def)
qed

lemma findNearest_hit:
  "cacheResults (options this) \<Longrightarrow>
   map_of (entries (resultCache this)) (getCacheKey rt this (typedQuery_of rt query) k opts) = Some c \<Longrightarrow>
     findNearest rt db el this h query k opts =
       \<lparr>outcome = Inr (length (arrays h)),
        engine = this\<lparr>resultCache :=
                       (resultCache this)\<lparr>entries := (getCacheKey rt this (typedQuery_of rt query) k opts, c)
                            # lru_remove (getCacheKey rt this (typedQuery_of rt query) k opts) (entries (resultCache this))\<rparr>,
                     stats := recordTime el ((stats this)\<lparr>calls := calls (stats this) + 1,
                                                          cacheHits := cacheHits (stats this) + 1\<rparr>)\<rparr>,
        store = snd (spread h c),
        sent = None\<rparr>"
proof -
  assume c: "cacheResults (options this)"
    and m: "map_of (entries (resultCache this)) (getCacheKey rt this (typedQuery_of rt query) k opts) = Some c"
  have key: "getCacheKey rt (this\<lparr>stats := (stats this)\<lparr>calls := calls (stats this) + 1\<rparr>\<rparr>) (typedQuery_of rt query) k opts
               = getCacheKey rt this (typedQuery_of rt query) k opts"
    by (rule getCacheKey_options) simp
  note g = lru_get_hit[OF m]
  show ?thesis
    using c g key by (simp add: findNearest_def Let_def newResults_def new_refs_def spread_def contents_def)
qed

lemma options_counted: "options (counted this) = options this"
  by (simp add: counted_def)

lemma options_missed: "options (missed this) = options this"
  by (simp add: missed_def)

lemma resultCache_counted: "resultCache (counted this) = resultCache this"
  by (simp add: counted_def)

lemma resultCache_missed: "resultCache (missed this) = resultCache this"
  by (simp add: missed_def)

lemma getCacheKey_counted: "getCacheKey rt (counted this) q k opts = getCacheKey rt this q k opts"
  by (rule getCacheKey_options) (simp add: counted_def)

lemma getCacheKey_missed: "getCacheKey rt (missed this) q k opts = getCacheKey rt this q k opts"
  by (rule getCacheKey_options) (simp add: missed_def)

lemma backendRequest_counted: "backendRequest (counted this) q k opts = backendRequest this q k opts"
  by (rule backendRequest_options) (simp add: counted_def)

lemma backendRequest_missed: "backendRequest (missed this) q k opts = backendRequest this q k opts"
  by (rule backendRequest_options) (simp add: missed_def)

lemmas engine_simps =
  options_counted options_missed resultCache_counted resultCache_missed
  getCacheKey_counted getCacheKey_missed backendRequest_counted backendRequest_missed

text \<open>A call whose lookup misses and whose backend answers.\<close>

lemma findNearest_miss_ok:
  assumes "cacheResults (options this)"
    and "map_of (entries (resultCache this)) (getCacheKey rt this (typedQuery_of rt query) k opts) = None"
    and "db (backendRequest this (typedQuery_of rt query) k opts) = Inr rs"
  shows "findNearest rt db el this h query k opts =
       \<lparr>outcome = Inr (length (arrays h)),
        engine = this\<lparr>resultCache := lru_set (resultCache this)
                         (getCacheKey rt this (typedQuery_of rt query) k opts) (Suc (length (arrays h))),
                     stats := recordTime el (stats (missed (counted this)))\<rparr>,
        store = snd (spread (snd (newResults h rs)) (length (arrays h))),
        sent = Some (backendRequest this (typedQuery_of rt query) k opts)\<rparr>"
proof -
  have "findNearest rt db el this h query k opts =
          callBackend rt db el (missed (counted this)) h (typedQuery_of rt query) k opts"
    using assms(1,2) by (rule findNearest_miss)
  also have "\<dots> = \<lparr>outcome = Inr (length (arrays h)),
        engine = (missed (counted this))\<lparr>resultCache := lru_set (resultCache (missed (counted this)))
                         (getCacheKey rt (missed (counted this)) (typedQuery_of rt query) k opts) (Suc (length (arrays h))),
                     stats := recordTime el (stats (missed (counted this)))\<rparr>,
        store = snd (spread (snd (newResults h rs)) (length (arrays h))),
        sent = Some (backendRequest (missed (counted this)) (typedQuery_of rt query) k opts)\<rparr>"
    using assms(1,3) by (intro callBackend_ok_cached) (simp_all add: engine_simps)
  also have "\<dots> = \<lparr>outcome = Inr (length (arrays h)),
        engine = this\<lparr>resultCache := lru_set (resultCache this)
                         (getCacheKey rt this (typedQuery_of rt query) k opts) (Suc (length (arrays h))),
                     stats := recordTime el (stats (missed (counted this)))\<rparr>,
        store = snd (spread (snd (newResults h rs)) (length (arrays h))),
        sent = Some (backendRequest this (typedQuery_of rt query) k opts)\<rparr>"
    by (simp add: engine_simps)
  finally show ?thesis .
qed

lemma findNearest_miss_fail:
  assumes "cacheResults (options this)"
    and "map_of (entries (resultCache this)) (getCacheKey rt this (typedQuery_of rt query) k opts) = None"
    and "db (backendRequest this (typedQuery_of rt query) k opts) = Inl err"
  shows "findNearest rt db el this h query k opts =
       \<lparr>outcome = Inl err, engine = missed (counted this), store = h,
        sent = Some (backendRequest this (typedQuery_of rt query) k opts)\<rparr>"
proof -
  have "findNearest rt db el this h query k opts =
          callBackend rt db el (missed (counted this)) h (typedQuery_of rt query) k opts"
    using assms(1,2) by (rule findNearest_miss)
  also have "\<dots> = \<lparr>outcome = Inl err, engine = missed (counted this), store = h,
        sent = Some (backendRequest (missed (counted this)) (typedQuery_of rt query) k opts)\<rparr>"
    using assms(3) by (intro callBackend_fail) (simp add: engine_simps)
  finally show ?thesis by (simp add: engine_simps)
qed

lemma findNearest_off_ok:
  assumes "\<not> cacheResults (options this)"
    and "db (backendRequest this (typedQuery_of rt query) k opts) = Inr rs"
  shows "findNearest rt db el this h query k opts =
       \<lparr>outcome = Inr (length (arrays h)),
        engine = this\<lparr>stats := recordTime el (stats (counted this))\<rparr>,
        store = snd (newResults h rs),
        sent = Some (backendRequest this (typedQuery_of rt query) k opts)\<rparr>"
proof -
  have "findNearest rt db el this h query k opts =
          callBackend rt db el (counted this) h (typedQuery_of rt query) k opts"
    using assms(1) by (rule findNearest_uncached)
  also have "\<dots> = \<lparr>outcome = Inr (length (arrays h)),
        engine = (counted this)\<lparr>stats := recordTime el (stats (counted this))\<rparr>,
        store = snd (newResults h rs),
        sent = Some (backendRequest (counted this) (typedQuery_of rt query) k opts)\<rparr>"
    using assms by (intro callBackend_ok_uncached) (simp_all add: engine_simps)
  finally show ?thesis by (simp add: engine_simps)
qed

lemma findNearest_off_fail:
  assumes "\<not> cacheResults (options this)"
    and "db (backendRequest this (typedQuery_of rt query) k opts) = Inl err"
  shows "findNearest rt db el this h query k opts =
       \<lparr>outcome = Inl err, engine = counted this, store = h,
        sent = Some (backendRequest this (typedQuery_of rt query) k opts)\<rparr>"
proof -
  have "findNearest rt db el this h query k opts =
          callBackend rt db el (counted this) h (typedQuery_of rt query) k opts"
    using assms(1) by (rule findNearest_uncached)
  also have "\<dots> = \<lparr>outcome = Inl err, engine = counted this, store = h,
        sent = Some (backendRequest (counted this) (typedQuery_of rt query) k opts)\<rparr>"
    using assms(2) by (intro callBackend_fail) (simp add: engine_simps)
  finally show ?thesis by (simp add: engine_simps)
qed

text \<open>The five paths, as a case rule.\<close>

lemma findNearest_cases [case_names Hit Miss_ok Miss_fail Off_ok Off_fail]:
  fixes rt db el this h query k opts
  defines "key \<equiv> getCacheKey rt this (typedQuery_of rt query) k opts"
    and "req \<equiv> backendRequest this (typedQuery_of rt query) k opts"
    and "r \<equiv> findNearest rt db el this h query k opts"
  assumes "\<And>c. cacheResults (options this) \<Longrightarrow> map_of (entries (resultCache this)) key = Some c \<Longrightarrow>
             r = \<lparr>outcome = Inr (length (arrays h)),
                  engine = this\<lparr>resultCache := (resultCache this)\<lparr>entries := (key, c) # lru_remove key (entries (resultCache this))\<rparr>,
                     stats := recordTime el ((stats this)\<lparr>calls := calls (stats this) + 1,
                                                          cacheHits := cacheHits (stats this) + 1\<rparr>)\<rparr>,
                  store = snd (spread h c), sent = None\<rparr> \<Longrightarrow> P"
    and "\<And>rs. cacheResults (options this) \<Longrightarrow> map_of (entries (resultCache this)) key = None \<Longrightarrow>
             db req = Inr rs \<Longrightarrow>
             r = \<lparr>outcome = Inr (length (arrays h)),
                  engine = this\<lparr>resultCache := lru_set (resultCache this) key (Suc (length (arrays h))),
                               stats := recordTime el (stats (missed (counted this)))\<rparr>,
                  store = snd (spread (snd (newResults h rs)) (length (arrays h))), sent = Some req\<rparr> \<Longrightarrow> P"
    and "\<And>err. cacheResults (options this) \<Longrightarrow> map_of (entries (resultCache this)) key = None \<Longrightarrow>
             db req = Inl err \<Longrightarrow>
             r = \<lparr>outcome = Inl err, engine = missed (counted this), store = h, sent = Some req\<rparr> \<Longrightarrow> P"
    and "\<And>rs. \<not> cacheResults (options this) \<Longrightarrow> db req = Inr rs \<Longrightarrow>
             r = \<lparr>outcome = Inr (length (arrays h)),
                  engine = this\<lparr>stats := recordTime el (stats (counted this))\<rparr>,
                  store = snd (newResults h rs), sent = Some req\<rparr> \<Longrightarrow> P"
    and "\<And>err. \<not> cacheResults (options this) \<Longrightarrow> db req = Inl err \<Longrightarrow>
             r = \<lparr>outcome = Inl err, engine = counted this, store = h, sent = Some req\<rparr> \<Longrightarrow> P"
  shows P
proof (cases "cacheResults (options this)")
  case on: True
  show ?thesis
  proof (cases "map_of (entries (resultCache this)) key")
    case None
    show ?thesis
    proof (cases "db req")
      case (Inl err)
      with on None assms(6) show ?thesis
        unfolding key_def req_def r_def by (simp add: findNearest_miss_fail)
    next
      case (Inr rs)
      with on None assms(5) show ?thesis
        unfolding key_def req_def r_def by (simp add: findNearest_miss_ok)
    qed
  next
    case (Some c)
    with on assms(4) show ?thesis
      unfolding key_def req_def r_def by (simp add: findNearest_hit)
  qed
next
  case off: False
  show ?thesis
  proof (cases "db req")
    case (Inl err)
    with off assms(8) show ?thesis
      unfolding key_def req_def r_def by (simp add: findNearest_off_fail)
  next
    case (Inr rs)
    with off assms(7) show ?thesis
      unfolding key_def req_def r_def by (simp add: findNearest_off_ok)
  qed
qed

section \<open>Statistics along a call and along a sequence of calls\<close>

lemma totalTime_recordTime: "totalTime (recordTime el st) = totalTime st + el"
  by (simp add: recordTime_def)

lemma lastSearchTime_recordTime: "lastSearchTime (recordTime el st) = el"
  by (simp add: recordTime_def)

lemma counters_recordTime:
  "calls (recordTime el st) = calls st" "cacheHits (recordTime el st) = cacheHits st"
  "cacheMisses (recordTime el st) = cacheMisses st"
  by (simp_all add: recordTime_def)

lemmas stats_simps =
  totalTime_recordTime lastSearchTime_recordTime counters_recordTime counted_def missed_def

lemma findNearest_options: "options (engine (findNearest rt db el this h query k opts)) = options this"
  by (rule findNearest_cases[where rt=rt and db=db and el=el and this=this and h=h
        and query=query and k=k and opts=opts])
     (simp_all add: stats_simps)

lemma findNearest_calls:
  "calls (stats (engine (findNearest rt db el this h query k opts))) = calls (stats this) + 1"
  by (rule findNearest_cases[where rt=rt and db=db and el=el and this=this and h=h
        and query=query and k=k and opts=opts])
     (simp_all add: stats_simps)

lemma findNearest_cacheHits:
  "cacheHits (stats this) \<le> cacheHits (stats (engine (findNearest rt db el this h query k opts)))"
  by (rule findNearest_cases[where rt=rt and db=db and el=el and this=this and h=h
        and query=query and k=k and opts=opts])
     (simp_all add: stats_simps)

lemma findNearest_cacheMisses:
  "cacheMisses (stats this) \<le> cacheMisses (stats (engine (findNearest rt db el this h query k opts)))"
  by (rule findNearest_cases[where rt=rt and db=db and el=el and this=this and h=h
        and query=query and k=k and opts=opts])
     (simp_all add: stats_simps)

lemma findNearest_totalTime:
  "0 \<le> el \<Longrightarrow>
     totalTime (stats this) \<le> totalTime (stats (engine (findNearest rt db el this h query k opts)))"
  by (rule findNearest_cases[where rt=rt and db=db and el=el and this=this and h=h
        and query=query and k=k and opts=opts])
     (simp_all add: stats_simps)

lemma findNearest_balance:
  "cacheResults (options this) \<Longrightarrow>
     cacheHits (stats (engine (findNearest rt db el this h query k opts)))
       + cacheMisses (stats (engine (findNearest rt db el this h query k opts)))
     = cacheHits (stats this) + cacheMisses (stats this) + 1"
  by (rule findNearest_cases[where rt=rt and db=db and el=el and this=this and h=h
        and query=query and k=k and opts=opts])
     (simp_all add: stats_simps)

lemma run_options: "run rt cs (this, h) = (this', h') \<Longrightarrow> options this' = options this"
proof (induction cs arbitrary: this h)
  case Nil
  then show ?case by simp
next
  case (Cons c cs)
  from Cons.prems have "run rt cs (engine (findNearest rt (call_db c) (call_elapsed c) this h (call_query c) (call_k c) (call_opts c)),
      store (findNearest rt (call_db c) (call_elapsed c) this h (call_query c) (call_k c) (call_opts c))) = (this', h')"
    by (simp add: Let_def)
  from Cons.IH[OF this] show ?case by (simp add: findNearest_options)
qed

lemma run_stats:
  "run rt cs (this, h) = (this', h') \<Longrightarrow>
     calls (stats this') = calls (stats this) + length cs \<and>
     cacheHits (stats this) \<le> cacheHits (stats this') \<and>
     cacheMisses (stats this) \<le> cacheMisses (stats this') \<and>
     ((\<forall>c\<in>set cs. 0 \<le> call_elapsed c) \<longrightarrow> totalTime (stats this) \<le> totalTime (stats this')) \<and>
     (cacheResults (options this) \<longrightarrow>
        cacheHits (stats this') + cacheMisses (stats this')
          = cacheHits (stats this) + cacheMisses (stats this) + length cs)"
proof (induction cs arbitrary: this h)
  case Nil
  then show ?case by simp
next
  case (Cons c cs)
  let ?r = "findNearest rt (call_db c) (call_elapsed c) this h (call_query c) (call_k c) (call_opts c)"
  from Cons.prems have "run rt cs (engine ?r, store ?r) = (this', h')"
    by (simp add: Let_def)
  note ih = Cons.IH[OF this]
  have 1: "calls (stats this') = calls (stats this) + length (c # cs)"
    using ih findNearest_calls[of rt "call_db c" "call_elapsed c" this h "call_query c" "call_k c" "call_opts c"]
    by simp
  have 2: "cacheHits (stats this) \<le> cacheHits (stats this')"
    using ih findNearest_cacheHits[of this rt "call_db c" "call_elapsed c" h "call_query c" "call_k c" "call_opts c"]
    by linarith
  have 3: "cacheMisses (stats this) \<le> cacheMisses (stats this')"
    using ih findNearest_cacheMisses[of this rt "call_db c" "call_elapsed c" h "call_query c" "call_k c" "call_opts c"]
    by linarith
  have 4: "(\<forall>c\<in>set (c # cs). 0 \<le> call_elapsed c) \<longrightarrow> totalTime (stats this) \<le> totalTime (stats this')"
  proof
    assume a: "\<forall>c\<in>set (c # cs). 0 \<le> call_elapsed c"
    then have "totalTime (stats this) \<le> totalTime (stats (engine ?r))"
      by (simp add: findNearest_totalTime)
    moreover from a ih have "totalTime (stats (engine ?r)) \<le> totalTime (stats this')" by simp
    ultimately show "totalTime (stats this) \<le> totalTime (stats this')" by linarith
  qed
  have 5: "cacheResults (options this) \<longrightarrow>
        cacheHits (stats this') + cacheMisses (stats this')
          = cacheHits (stats this) + cacheMisses (stats this) + length (c # cs)"
  proof
    assume a: "cacheResults (options this)"
    then have "cacheResults (options (engine ?r))" by (simp add: findNearest_options)
    with ih have "cacheHits (stats this') + cacheMisses (stats this')
          = cacheHits (stats (engine ?r)) + cacheMisses (stats (engine ?r)) + length cs" by simp
    with findNearest_balance[OF a, of rt "call_db c" "call_elapsed c" h "call_query c" "call_k c" "call_opts c"]
    show "cacheHits (stats this') + cacheMisses (stats this')
          = cacheHits (stats this) + cacheMisses (stats this) + length (c # cs)" by simp
  qed
  from 1 2 3 4 5 show ?case by blast
qed

lemma new_engine_facts:
  "entries (resultCache (KNNEngineSearch_new kopts)) = []"
  "stats (KNNEngineSearch_new kopts) = \<lparr>calls = 0, totalTime = 0, lastSearchTime = 0, cacheHits = 0, cacheMisses = 0\<rparr>"
  "cacheResults (options (KNNEngineSearch_new kopts)) \<longleftrightarrow> cacheResults_arg kopts \<noteq> Some False"
  by (auto simp: KNNEngineSearch_new_def lru_new_def split: option.splits)

section \<open>Evaluating the examples\<close>

lemmas eval_defs =
  default_engine_def KNNEngineSearch_new_def lru_new_def
  findNearest_def callBackend_def getCacheKey_def queryHash_def filterInfo_def probesInfo_def
  typedQuery_of_def backendRequest_def int_runtime_def answering_def failing_def no_options_def
  zero_probes_def extra_options_def with_metric_def returned_def
  lru_get_def lru_set_def lru_remove_def recordTime_def newResults_def new_refs_def spread_def
      contents_def empty_heap_def show_int_def
  digit_char_def Let_def

lemma example_first_value:
  "example_first =
     \<lparr>outcome = Inr 0,
      engine = \<lparr>options = \<lparr>metric = ''euclidean'', cacheResults = True\<rparr>,
                resultCache = \<lparr>entries = [(''1.0000,2.0000_k5_euclidean_noFilter_'', 1)],
                               max_entries = 1000\<rparr>,
                stats = \<lparr>calls = 1, totalTime = 3, lastSearchTime = 3, cacheHits = 0,
                         cacheMisses = 1\<rparr>\<rparr>,
      store = \<lparr>arrays = [[0, 1], [0, 1]], objects = [''a'', ''b'']\<rparr>,
      sent = Some ([1, 2], 5, \<lparr>filter_opt = None, distanceMetric = Some ''euclidean'',
                                 probes = None, rest = []\<rparr>)\<rparr>"
  by (simp add: example_first_def eval_defs)

section \<open>Miss, then hit\<close>

text \<open>
  Claim C1. An engine is constructed with caching enabled, so its cache is empty and its
  counters are zero. A first call \<open>findNearest(Q, 5)\<close> to which the backend answers with
  the results \<open>R\<close> sends the request to the backend and returns \<open>R\<close>. A second call
  with the same arguments sends nothing to the backend, whatever the backend would do
  then, and returns an array with the contents \<open>R\<close>; after it \<open>cacheHits\<close> is 1 and
  \<open>cacheMisses\<close> is 1.
\<close>

theorem miss_then_hit:
  assumes enabled: "cacheResults_arg kopts \<noteq> Some False"
    and answer: "dbA (backendRequest (KNNEngineSearch_new kopts) (typedQuery_of rt Q) 5 opts) = Inr R"
  shows "let r1 = findNearest rt dbA elA (KNNEngineSearch_new kopts) h Q 5 opts;
             r2 = findNearest rt dbB elB (engine r1) (store r1) Q 5 opts
         in sent r1 = Some (backendRequest (KNNEngineSearch_new kopts) (typedQuery_of rt Q) 5 opts)
          \<and> returned r1 = Some R
          \<and> cacheHits (stats (engine r1)) = 0 \<and> cacheMisses (stats (engine r1)) = 1
          \<and> sent r2 = None
          \<and> returned r2 = Some R
          \<and> cacheHits (stats (engine r2)) = 1 \<and> cacheMisses (stats (engine r2)) = 1"
proof -
  let ?e = "KNNEngineSearch_new kopts"
  let ?key = "getCacheKey rt ?e (typedQuery_of rt Q) 5 opts"
  let ?r1 = "findNearest rt dbA elA ?e h Q 5 opts"
  have on: "cacheResults (options ?e)" using enabled by (simp add: new_engine_facts)
  have empty: "map_of (entries (resultCache ?e)) ?key = None" by (simp add: new_engine_facts)
  note r1 = findNearest_miss_ok[where db=dbA and rt=rt and this="?e" and query=Q and k=5
      and opts=opts and rs=R and el=elA and h=h, OF on empty answer]
  have on1: "cacheResults (options (engine ?r1))" using on by (simp add: findNearest_options)
  have key1: "getCacheKey rt (engine ?r1) (typedQuery_of rt Q) 5 opts = ?key"
    by (rule getCacheKey_options) (simp add: findNearest_options)
  have cached: "map_of (entries (resultCache (engine ?r1))) (getCacheKey rt (engine ?r1) (typedQuery_of rt Q) 5 opts)
                  = Some (Suc (length (arrays h)))"
    unfolding key1 by (simp add: r1 map_of_lru_set_same)
  note r2 = findNearest_hit[OF on1 cached, of dbB elB "store ?r1"]
  have s1: "store ?r1 = snd (spread (snd (newResults h R)) (length (arrays h)))"
    by (simp add: r1)
  have st1: "stats (engine ?r1) = recordTime elA (stats (missed (counted ?e)))" by (simp add: r1)
  have a: "sent ?r1 = Some (backendRequest ?e (typedQuery_of rt Q) 5 opts)" by (simp add: r1)
  have b: "returned ?r1 = Some R" by (simp add: r1 returned_def contents_miss_store)
  have d: "cacheHits (stats (engine ?r1)) = 0 \<and> cacheMisses (stats (engine ?r1)) = 1"
    by (simp add: st1 stats_simps new_engine_facts)
  have e: "sent (findNearest rt dbB elB (engine ?r1) (store ?r1) Q 5 opts) = None"
    by (simp add: r2)
  have f: "returned (findNearest rt dbB elB (engine ?r1) (store ?r1) Q 5 opts) = Some R"
    using read_new_refs[of h R "[]"]
    by (subst r2) (simp add: s1 returned_def contents_def store_simps nth_append)
  have i: "cacheHits (stats (engine (findNearest rt dbB elB (engine ?r1) (store ?r1) Q 5 opts))) = 1
         \<and> cacheMisses (stats (engine (findNearest rt dbB elB (engine ?r1) (store ?r1) Q 5 opts))) = 1"
    using d by (simp add: r2 stats_simps)
  from a b d e f i show ?thesis by (simp add: Let_def)
qed

theorem miss_then_hit_witness:
  "cacheResults_arg \<lparr>metric_arg = None, cacheResults_arg = None\<rparr> \<noteq> Some False
   \<and> answering [''a'', ''b'']
        (backendRequest default_engine (typedQuery_of int_runtime (NumberArray [1, 2])) 5 no_options)
        = Inr [''a'', ''b'']
   \<and> (let r1 = findNearest int_runtime (answering [''a'', ''b'']) 3 default_engine empty_heap (NumberArray [1, 2]) 5 no_options;
          r2 = findNearest int_runtime (failing ''down'') 1 (engine r1) (store r1) (NumberArray [1, 2]) 5 no_options
      in returned r1 = Some [''a'', ''b''] \<and> sent r2 = None \<and> returned r2 = Some [''a'', ''b'']
       \<and> cacheHits (stats (engine r2)) = 1 \<and> cacheMisses (stats (engine r2)) = 1)"
proof -
  have h1: "cacheResults_arg \<lparr>metric_arg = None, cacheResults_arg = None\<rparr> \<noteq> Some False" by simp
  have h2: "answering [''a'', ''b'']
        (backendRequest (KNNEngineSearch_new \<lparr>metric_arg = None, cacheResults_arg = None\<rparr>)
           (typedQuery_of int_runtime (NumberArray [1, 2])) 5 no_options) = Inr [''a'', ''b'']"
    by (simp add: answering_def)
  show ?thesis
    using h1 h2 miss_then_hit[where kopts="\<lparr>metric_arg = None, cacheResults_arg = None\<rparr>"
        and dbA="answering [''a'', ''b'']" and rt=int_runtime and Q="NumberArray [1, 2]"
        and opts=no_options and R="[''a'', ''b'']" and elA=3 and h=empty_heap
        and dbB="failing ''down''" and elB=1, OF h1 h2]
    by (simp add: default_engine_def Let_def)
qed

lemma example_run:
  "stats (fst (run int_runtime example_calls (default_engine, empty_heap))) =
     \<lparr>calls = 3, totalTime = 4, lastSearchTime = 1, cacheHits = 1, cacheMisses = 2\<rparr>"
  by (simp add: example_calls_def default_engine_def KNNEngineSearch_new_def lru_new_def
      findNearest_def callBackend_def getCacheKey_def queryHash_def filterInfo_def probesInfo_def
      typedQuery_of_def backendRequest_def int_runtime_def answering_def failing_def no_options_def
      lru_get_def lru_set_def lru_remove_def recordTime_def newResults_def new_refs_def spread_def
      contents_def empty_heap_def show_int_def
      digit_char_def Let_def)

section \<open>The counters never decrease\<close>

text \<open>
  Claim C2. Along any sequence of calls of \<open>findNearest\<close>, answered or failed, the
  counters \<open>calls\<close>, \<open>cacheHits\<close> and \<open>cacheMisses\<close> do not decrease, and neither does
  \<open>totalTime\<close>, the timer readings being elapsed times, that is, not negative. When the
  engine has caching enabled (the configuration is fixed at construction, so it is then
  enabled for every call) and \<open>cacheHits + cacheMisses = calls\<close> holds before the
  sequence, as it does in a new engine, it holds after it. Every prefix of a sequence is a
  sequence, so this is the state after each call.
\<close>

theorem stats_monotone_balanced:
  "let this' = fst (run rt cs (this, h))
   in calls (stats this) \<le> calls (stats this')
    \<and> cacheHits (stats this) \<le> cacheHits (stats this')
    \<and> cacheMisses (stats this) \<le> cacheMisses (stats this')
    \<and> ((\<forall>c\<in>set cs. 0 \<le> call_elapsed c) \<longrightarrow> totalTime (stats this) \<le> totalTime (stats this'))
    \<and> (cacheResults (options this) \<and> cacheHits (stats this) + cacheMisses (stats this) = calls (stats this)
         \<longrightarrow> cacheHits (stats this') + cacheMisses (stats this') = calls (stats this'))"
proof -
  obtain this' h' where r: "run rt cs (this, h) = (this', h')" by (cases "run rt cs (this, h)")
  from run_stats[OF r] have "calls (stats this) \<le> calls (stats this')
    \<and> cacheHits (stats this) \<le> cacheHits (stats this')
    \<and> cacheMisses (stats this) \<le> cacheMisses (stats this')
    \<and> ((\<forall>c\<in>set cs. 0 \<le> call_elapsed c) \<longrightarrow> totalTime (stats this) \<le> totalTime (stats this'))
    \<and> (cacheResults (options this) \<and> cacheHits (stats this) + cacheMisses (stats this) = calls (stats this)
         \<longrightarrow> cacheHits (stats this') + cacheMisses (stats this') = calls (stats this'))"
    by simp
  with r show ?thesis by (simp add: Let_def)
qed

theorem stats_monotone_balanced_witness:
  "list_all (\<lambda>c. 0 \<le> call_elapsed c) example_calls
   \<and> cacheResults (options default_engine)
   \<and> cacheHits (stats default_engine) + cacheMisses (stats default_engine) = calls (stats default_engine)
   \<and> (let this' = fst (run int_runtime example_calls (default_engine, empty_heap))
      in totalTime (stats default_engine) \<le> totalTime (stats this')
       \<and> cacheHits (stats this') + cacheMisses (stats this') = calls (stats this')
       \<and> stats this' = \<lparr>calls = 3, totalTime = 4, lastSearchTime = 1, cacheHits = 1, cacheMisses = 2\<rparr>)"
proof -
  have h1: "\<forall>c\<in>set example_calls. 0 \<le> call_elapsed c" by (simp add: example_calls_def)
  have h2: "cacheResults (options default_engine)"
    by (simp add: default_engine_def new_engine_facts)
  have h3: "cacheHits (stats default_engine) + cacheMisses (stats default_engine) = calls (stats default_engine)"
    by (simp add: default_engine_def new_engine_facts)
  from h1 h2 h3 stats_monotone_balanced[where this=default_engine and rt=int_runtime
      and cs=example_calls and h=empty_heap]
  show ?thesis by (simp add: Let_def example_run list_all_iff)
qed

section \<open>A failing backend\<close>

text \<open>
  Claim C5. Let a call of \<open>findNearest\<close> not be answered from the cache (caching is
  disabled or the key is not in the cache) and let the backend fail on the request the
  call makes. Then the call sends that one request and throws that same error: nothing is
  retried and no value is returned in place of the error. The result cache is what it was
  before the call, its entries and their recency order included, and nothing has been
  allocated in the store.
\<close>

theorem backend_failure_propagates:
  assumes "\<not> cacheResults (options this)
           \<or> map_of (entries (resultCache this))
                (getCacheKey rt this (typedQuery_of rt query) k opts) = None"
    and "db (backendRequest this (typedQuery_of rt query) k opts) = Inl err"
  shows "let r = findNearest rt db el this h query k opts
         in sent r = Some (backendRequest this (typedQuery_of rt query) k opts)
          \<and> outcome r = Inl err
          \<and> returned r = None
          \<and> resultCache (engine r) = resultCache this
          \<and> store r = h"
proof (cases "cacheResults (options this)")
  case True
  with assms(1) have none: "map_of (entries (resultCache this))
      (getCacheKey rt this (typedQuery_of rt query) k opts) = None" by blast
  note r = findNearest_miss_fail[where db=db and el=el and h=h, OF True none assms(2)]
  show ?thesis by (simp add: r Let_def returned_def engine_simps)
next
  case False
  note r = findNearest_off_fail[where db=db and el=el and h=h, OF False assms(2)]
  show ?thesis by (simp add: r Let_def returned_def engine_simps)
qed

theorem backend_failure_propagates_witness:
  "cacheResults (options (engine example_first))
   \<and> entries (resultCache (engine example_first)) = [(''1.0000,2.0000_k5_euclidean_noFilter_'', 1)]
   \<and> map_of (entries (resultCache (engine example_first)))
        (getCacheKey int_runtime (engine example_first)
           (typedQuery_of int_runtime (NumberArray [7])) 5 no_options) = None
   \<and> failing ''down'' (backendRequest (engine example_first)
        (typedQuery_of int_runtime (NumberArray [7])) 5 no_options) = Inl ''down''
   \<and> sent (findNearest int_runtime (failing ''down'') 2 (engine example_first)
             (store example_first) (NumberArray [7]) 5 no_options)
       = Some ([7], 5, \<lparr>filter_opt = None, distanceMetric = Some ''euclidean'', probes = None,
                         rest = []\<rparr>)
   \<and> outcome (findNearest int_runtime (failing ''down'') 2 (engine example_first)
             (store example_first) (NumberArray [7]) 5 no_options) = Inl ''down''
   \<and> resultCache (engine (findNearest int_runtime (failing ''down'') 2 (engine example_first)
             (store example_first) (NumberArray [7]) 5 no_options))
       = resultCache (engine example_first)
   \<and> store (findNearest int_runtime (failing ''down'') 2 (engine example_first)
             (store example_first) (NumberArray [7]) 5 no_options) = store example_first"
proof -
  have h0: "cacheResults (options (engine example_first))"
    "entries (resultCache (engine example_first)) = [(''1.0000,2.0000_k5_euclidean_noFilter_'', 1)]"
    by (simp_all add: example_first_value)
  have h1: "map_of (entries (resultCache (engine example_first)))
        (getCacheKey int_runtime (engine example_first)
           (typedQuery_of int_runtime (NumberArray [7])) 5 no_options) = None"
    by (simp add: example_first_value) (simp add: eval_defs)
  have h2: "failing ''down'' (backendRequest (engine example_first)
        (typedQuery_of int_runtime (NumberArray [7])) 5 no_options) = Inl ''down''"
    by (simp add: failing_def)
  have rq: "backendRequest (engine example_first)
        (typedQuery_of int_runtime (NumberArray [7])) 5 no_options
      = ([7], 5, \<lparr>filter_opt = None, distanceMetric = Some ''euclidean'', probes = None,
                         rest = []\<rparr>)"
    by (simp add: example_first_value) (simp add: eval_defs)
  from h1 have h1': "\<not> cacheResults (options (engine example_first))
           \<or> map_of (entries (resultCache (engine example_first)))
        (getCacheKey int_runtime (engine example_first)
           (typedQuery_of int_runtime (NumberArray [7])) 5 no_options) = None" by blast
  note t = backend_failure_propagates[where db="failing ''down''" and err="''down''" and el=2
      and h="store example_first", OF h1' h2, unfolded Let_def rq]
  from t h0 h1 h2 show ?thesis by blast
qed

text \<open>
  Claim C10. With caching enabled, a call whose key is not in the cache and whose backend
  call fails throws the error after \<open>calls\<close> and \<open>cacheMisses\<close> have each grown by one;
  \<open>cacheHits\<close>, \<open>totalTime\<close> and \<open>lastSearchTime\<close> are what they were before the call.
\<close>

theorem failed_miss_accounting:
  assumes "cacheResults (options this)"
    and "map_of (entries (resultCache this)) (getCacheKey rt this (typedQuery_of rt query) k opts) = None"
    and "db (backendRequest this (typedQuery_of rt query) k opts) = Inl err"
  shows "let r = findNearest rt db el this h query k opts
         in outcome r = Inl err
          \<and> calls (stats (engine r)) = calls (stats this) + 1
          \<and> cacheMisses (stats (engine r)) = cacheMisses (stats this) + 1
          \<and> cacheHits (stats (engine r)) = cacheHits (stats this)
          \<and> totalTime (stats (engine r)) = totalTime (stats this)
          \<and> lastSearchTime (stats (engine r)) = lastSearchTime (stats this)"
  by (simp add: findNearest_miss_fail[OF assms(1,2), where db=db, OF assms(3)] Let_def stats_simps)

theorem failed_miss_accounting_witness:
  "cacheResults (options default_engine)
   \<and> map_of (entries (resultCache default_engine))
        (getCacheKey int_runtime default_engine (typedQuery_of int_runtime (NumberArray [7])) 5 no_options) = None
   \<and> failing ''down'' (backendRequest default_engine (typedQuery_of int_runtime (NumberArray [7])) 5 no_options)
        = Inl ''down''
   \<and> (let r = findNearest int_runtime (failing ''down'') 2 default_engine empty_heap (NumberArray [7]) 5 no_options
      in outcome r = Inl ''down''
       \<and> calls (stats (engine r)) = 1 \<and> cacheMisses (stats (engine r)) = 1
       \<and> totalTime (stats (engine r)) = 0 \<and> lastSearchTime (stats (engine r)) = 0)"
proof -
  have h1: "cacheResults (options default_engine)"
    by (simp add: default_engine_def new_engine_facts)
  have h2: "map_of (entries (resultCache default_engine))
        (getCacheKey int_runtime default_engine (typedQuery_of int_runtime (NumberArray [7])) 5 no_options) = None"
    by (simp add: default_engine_def new_engine_facts)
  have h3: "failing ''down'' (backendRequest default_engine (typedQuery_of int_runtime (NumberArray [7])) 5 no_options)
        = Inl ''down''"
    by (simp add: failing_def)
  have z: "stats default_engine = \<lparr>calls = 0, totalTime = 0, lastSearchTime = 0, cacheHits = 0, cacheMisses = 0\<rparr>"
    by (simp add: default_engine_def new_engine_facts)
  from failed_miss_accounting[where db="failing ''down''" and err="''down''" and el=2 and h=empty_heap, OF h1 h2 h3]
    h1 h2 h3
  show ?thesis by (simp add: Let_def z)
qed

section \<open>The statistics snapshot\<close>

lemma js_div_by_zero: "js_div x 0 = NaN \<or> js_div x 0 = Infinity \<or> js_div x 0 = NegInfinity"
  by (simp add: js_div_def)

text \<open>
  Claim C9. In the snapshot \<open>getStats\<close> returns, \<open>avgTime\<close> is \<open>totalTime / calls\<close> when
  \<open>calls\<close> is positive and 0 when \<open>calls\<close> is 0. It is a finite number in every state of
  the statistics, never the \<open>NaN\<close> or the infinity that a division by a zero count would
  give: that division does not take place. The snapshot carries the current number of
  cache entries and the counters.
\<close>

theorem getStats_avgTime:
  "(0 < calls (stats this) \<longrightarrow>
      avgTime (getStats this) = Finite (totalTime (stats this) / real (calls (stats this))))
   \<and> (calls (stats this) = 0 \<longrightarrow> avgTime (getStats this) = Finite 0)
   \<and> avgTime (getStats this) \<noteq> NaN
   \<and> avgTime (getStats this) \<noteq> Infinity
   \<and> avgTime (getStats this) \<noteq> NegInfinity
   \<and> cachedResultsCount (getStats this) = length (entries (resultCache this))
   \<and> calls (getStats this) = calls (stats this)
   \<and> totalTime (getStats this) = totalTime (stats this)"
  by (simp add: getStats_def js_div_def lru_size_def)

theorem getStats_avgTime_witness:
  "calls (stats default_engine) = 0
   \<and> js_div (totalTime (stats default_engine)) (real (calls (stats default_engine))) = NaN
   \<and> avgTime (getStats default_engine) = Finite 0
   \<and> cachedResultsCount (getStats default_engine) = 0
   \<and> (let this = fst (run int_runtime example_calls (default_engine, empty_heap))
      in 0 < calls (stats this) \<and> avgTime (getStats this) = Finite (4 / 3)
       \<and> cachedResultsCount (getStats this) = 1)"
proof -
  let ?e = "fst (run int_runtime example_calls (default_engine, empty_heap))"
  have z: "calls (stats default_engine) = 0" "entries (resultCache default_engine) = []"
    "totalTime (stats default_engine) = 0"
    by (simp_all add: default_engine_def new_engine_facts)
  have c: "length (entries (resultCache ?e)) = 1"
    by (simp add: example_calls_def default_engine_def KNNEngineSearch_new_def lru_new_def
      findNearest_def callBackend_def getCacheKey_def queryHash_def filterInfo_def probesInfo_def
      typedQuery_of_def backendRequest_def int_runtime_def answering_def failing_def no_options_def
      lru_get_def lru_set_def lru_remove_def recordTime_def newResults_def new_refs_def
      spread_def empty_heap_def show_int_def digit_char_def Let_def)
  have n: "js_div (totalTime (stats default_engine)) (real (calls (stats default_engine))) = NaN"
    by (simp add: z js_div_def)
  from getStats_avgTime[of default_engine] getStats_avgTime[of ?e] z c n
  show ?thesis by (simp add: Let_def example_run)
qed

section \<open>What the cache key tells apart\<close>

lemma probesInfo_eq_iff:
  "probesInfo a = probesInfo b \<longleftrightarrow>
     (case probes a of Some p \<Rightarrow> if p \<noteq> 0 then Some p else None | None \<Rightarrow> None)
   = (case probes b of Some p \<Rightarrow> if p \<noteq> 0 then Some p else None | None \<Rightarrow> None)"
  by (auto simp: probesInfo_def split: option.splits dest: show_int_inj)

lemma getCacheKey_k_inj:
  "getCacheKey rt this q k1 opts = getCacheKey rt this q k2 opts \<Longrightarrow> k1 = k2"
  by (simp add: getCacheKey_def show_int_inj)

lemma getCacheKey_metric_inj:
  "getCacheKey rt this1 q k opts = getCacheKey rt this2 q k opts \<Longrightarrow>
     metric (options this1) = metric (options this2)"
  by (simp add: getCacheKey_def)

lemma getCacheKey_probes_inj:
  "filter_opt a = filter_opt b \<Longrightarrow>
   getCacheKey rt this q k a = getCacheKey rt this q k b \<longleftrightarrow> probesInfo a = probesInfo b"
  by (simp add: getCacheKey_def filterInfo_def)

lemma findNearest_keys:
  "fst ` set (entries (resultCache (engine (findNearest rt db el this h query k opts))))
     \<subseteq> insert (getCacheKey rt this (typedQuery_of rt query) k opts)
          (fst ` set (entries (resultCache this)))"
proof (rule findNearest_cases[where rt=rt and db=db and el=el and this=this and h=h
        and query=query and k=k and opts=opts])
  fix rs
  assume "findNearest rt db el this h query k opts =
       \<lparr>outcome = Inr (length (arrays h)),
          engine = this\<lparr>resultCache := lru_set (resultCache this)
                 (getCacheKey rt this (typedQuery_of rt query) k opts) (Suc (length (arrays h))),
               stats := recordTime el (stats (missed (counted this)))\<rparr>,
          store = snd (spread (snd (newResults h rs)) (length (arrays h))),
          sent = Some (backendRequest this (typedQuery_of rt query) k opts)\<rparr>"
  then show ?thesis using keys_lru_set[of "resultCache this"] by simp
qed (auto simp: keys_lru_remove engine_simps)

lemma with_metric_simps:
  "resultCache (with_metric m this) = resultCache this"
  "stats (with_metric m this) = stats this"
  "cacheResults (options (with_metric m this)) = cacheResults (options this)"
  "metric (options (with_metric m this)) = m"
  by (simp_all add: with_metric_def)

lemma second_key_misses:
  assumes on: "cacheResults (options this)"
    and diff: "getCacheKey rt (with_metric m (engine (findNearest rt dbA elA this h query k1 opts1)))
                 (typedQuery_of rt query) k2 opts2
               \<noteq> getCacheKey rt this (typedQuery_of rt query) k1 opts1"
    and new: "getCacheKey rt (with_metric m (engine (findNearest rt dbA elA this h query k1 opts1)))
                 (typedQuery_of rt query) k2 opts2
               \<notin> fst ` set (entries (resultCache this))"
  shows "sent (findNearest rt dbB elB (with_metric m (engine (findNearest rt dbA elA this h query k1 opts1)))
                 (store (findNearest rt dbA elA this h query k1 opts1)) query k2 opts2)
           = Some (backendRequest (with_metric m (engine (findNearest rt dbA elA this h query k1 opts1)))
                     (typedQuery_of rt query) k2 opts2)
       \<and> cacheMisses (stats (engine (findNearest rt dbB elB (with_metric m (engine (findNearest rt dbA elA this h query k1 opts1)))
                 (store (findNearest rt dbA elA this h query k1 opts1)) query k2 opts2)))
           = cacheMisses (stats (engine (findNearest rt dbA elA this h query k1 opts1))) + 1
       \<and> cacheHits (stats (engine (findNearest rt dbB elB (with_metric m (engine (findNearest rt dbA elA this h query k1 opts1)))
                 (store (findNearest rt dbA elA this h query k1 opts1)) query k2 opts2)))
           = cacheHits (stats (engine (findNearest rt dbA elA this h query k1 opts1)))"
proof -
  let ?r1 = "findNearest rt dbA elA this h query k1 opts1"
  let ?e2 = "with_metric m (engine ?r1)"
  let ?key2 = "getCacheKey rt ?e2 (typedQuery_of rt query) k2 opts2"
  have on2: "cacheResults (options ?e2)"
    using on by (simp add: with_metric_simps findNearest_options)
  from findNearest_keys[of rt dbA elA this h query k1 opts1] diff new
  have "?key2 \<notin> fst ` set (entries (resultCache (engine ?r1)))" by blast
  then have none: "map_of (entries (resultCache ?e2)) ?key2 = None"
    by (simp add: with_metric_simps map_of_eq_None_iff)
  show ?thesis
  proof (cases "dbB (backendRequest ?e2 (typedQuery_of rt query) k2 opts2)")
    case (Inl err)
    note r2 = findNearest_miss_fail[where db=dbB and el=elB and h="store ?r1", OF on2 none Inl]
    show ?thesis by (simp add: r2 stats_simps with_metric_simps)
  next
    case (Inr rs)
    note r2 = findNearest_miss_ok[where db=dbB and el=elB and h="store ?r1", OF on2 none Inr]
    show ?thesis by (simp add: r2 stats_simps with_metric_simps)
  qed
qed

text \<open>
  Claim C3, as amended. Between two calls that are otherwise identical, another \<open>k\<close>
  gives another cache key, and so does another configured metric. Another probes value
  gives another key unless both values are among the absent one and 0, which the key
  renders alike. When the key of the second call differs from the key of the first and
  was not in the cache before the first call, the second call, on an engine with caching
  enabled, is a miss: it sends its request to the backend and counts a miss and no hit.
\<close>

theorem key_sensitivity:
  "(k1 \<noteq> k2 \<longrightarrow> getCacheKey rt this q k1 opts \<noteq> getCacheKey rt this q k2 opts)
   \<and> (m \<noteq> metric (options this) \<longrightarrow>
        getCacheKey rt (with_metric m this) q k1 opts \<noteq> getCacheKey rt this q k1 opts)
   \<and> (p1 \<noteq> p2 \<and> \<not> (p1 \<in> {None, Some 0} \<and> p2 \<in> {None, Some 0}) \<longrightarrow>
        getCacheKey rt this q k1 (opts\<lparr>probes := p1\<rparr>) \<noteq> getCacheKey rt this q k1 (opts\<lparr>probes := p2\<rparr>))
   \<and> (let r1 = findNearest rt dbA elA this h query k1 opts;
          this2 = with_metric m (engine r1);
          key1 = getCacheKey rt this (typedQuery_of rt query) k1 opts;
          key2 = getCacheKey rt this2 (typedQuery_of rt query) k2 opts2;
          r2 = findNearest rt dbB elB this2 (store r1) query k2 opts2
      in cacheResults (options this) \<and> key2 \<noteq> key1 \<and> key2 \<notin> fst ` set (entries (resultCache this)) \<longrightarrow>
           sent r2 = Some (backendRequest this2 (typedQuery_of rt query) k2 opts2)
         \<and> cacheMisses (stats (engine r2)) = cacheMisses (stats (engine r1)) + 1
         \<and> cacheHits (stats (engine r2)) = cacheHits (stats (engine r1)))"
proof -
  have a: "k1 \<noteq> k2 \<longrightarrow> getCacheKey rt this q k1 opts \<noteq> getCacheKey rt this q k2 opts"
    using getCacheKey_k_inj[of rt this q k1 opts k2] by blast
  have b: "m \<noteq> metric (options this) \<longrightarrow>
        getCacheKey rt (with_metric m this) q k1 opts \<noteq> getCacheKey rt this q k1 opts"
    using getCacheKey_metric_inj[of rt "with_metric m this" q k1 opts this]
    by (auto simp: with_metric_simps)
  have c: "p1 \<noteq> p2 \<and> \<not> (p1 \<in> {None, Some 0} \<and> p2 \<in> {None, Some 0}) \<longrightarrow>
        getCacheKey rt this q k1 (opts\<lparr>probes := p1\<rparr>) \<noteq> getCacheKey rt this q k1 (opts\<lparr>probes := p2\<rparr>)"
    by (auto simp: getCacheKey_probes_inj probesInfo_eq_iff split: option.splits if_splits)
  have d: "cacheResults (options this)
       \<and> getCacheKey rt (with_metric m (engine (findNearest rt dbA elA this h query k1 opts)))
                 (typedQuery_of rt query) k2 opts2
               \<noteq> getCacheKey rt this (typedQuery_of rt query) k1 opts
       \<and> getCacheKey rt (with_metric m (engine (findNearest rt dbA elA this h query k1 opts)))
                 (typedQuery_of rt query) k2 opts2
               \<notin> fst ` set (entries (resultCache this)) \<longrightarrow>
        sent (findNearest rt dbB elB (with_metric m (engine (findNearest rt dbA elA this h query k1 opts)))
                 (store (findNearest rt dbA elA this h query k1 opts)) query k2 opts2)
           = Some (backendRequest (with_metric m (engine (findNearest rt dbA elA this h query k1 opts)))
                     (typedQuery_of rt query) k2 opts2)
       \<and> cacheMisses (stats (engine (findNearest rt dbB elB (with_metric m (engine (findNearest rt dbA elA this h query k1 opts)))
                 (store (findNearest rt dbA elA this h query k1 opts)) query k2 opts2)))
           = cacheMisses (stats (engine (findNearest rt dbA elA this h query k1 opts))) + 1
       \<and> cacheHits (stats (engine (findNearest rt dbB elB (with_metric m (engine (findNearest rt dbA elA this h query k1 opts)))
                 (store (findNearest rt dbA elA this h query k1 opts)) query k2 opts2)))
           = cacheHits (stats (engine (findNearest rt dbA elA this h query k1 opts)))"
    using second_key_misses[of this rt m dbA elA h query k1 opts k2 opts2 dbB elB] by blast
  from a b c d show ?thesis unfolding Let_def by blast
qed

theorem key_sensitivity_witness:
  "(5::int) \<noteq> 6
   \<and> getCacheKey int_runtime default_engine [1, 2] 5 no_options
       \<noteq> getCacheKey int_runtime default_engine [1, 2] 6 no_options
   \<and> ''cosine'' \<noteq> metric (options default_engine)
   \<and> getCacheKey int_runtime (with_metric ''cosine'' default_engine) [1, 2] 5 no_options
       \<noteq> getCacheKey int_runtime default_engine [1, 2] 5 no_options
   \<and> Some 3 \<noteq> (None :: int option) \<and> \<not> (Some 3 \<in> {None, Some (0::int)} \<and> None \<in> {None, Some (0::int)})
   \<and> getCacheKey int_runtime default_engine [1, 2] 5 (no_options\<lparr>probes := Some 3\<rparr>)
       \<noteq> getCacheKey int_runtime default_engine [1, 2] 5 (no_options\<lparr>probes := None\<rparr>)
   \<and> cacheResults (options default_engine)
   \<and> getCacheKey int_runtime (with_metric ''cosine'' (engine example_first))
         (typedQuery_of int_runtime (NumberArray [1, 2])) 6 no_options
       \<noteq> getCacheKey int_runtime default_engine (typedQuery_of int_runtime (NumberArray [1, 2])) 5 no_options
   \<and> getCacheKey int_runtime (with_metric ''cosine'' (engine example_first))
         (typedQuery_of int_runtime (NumberArray [1, 2])) 6 no_options
       \<notin> fst ` set (entries (resultCache default_engine))
   \<and> sent (findNearest int_runtime (answering [''c'']) 1 (with_metric ''cosine'' (engine example_first))
             (store example_first) (NumberArray [1, 2]) 6 no_options)
       = Some ([1, 2], 6, \<lparr>filter_opt = None, distanceMetric = Some ''cosine'', probes = None, rest = []\<rparr>)
   \<and> cacheMisses (stats (engine (findNearest int_runtime (answering [''c'']) 1
             (with_metric ''cosine'' (engine example_first)) (store example_first)
             (NumberArray [1, 2]) 6 no_options))) = 2"
proof -
  have h1: "(5::int) \<noteq> 6" by simp
  have h2: "''cosine'' \<noteq> metric (options default_engine)" by (simp add: eval_defs)
  have h3: "Some 3 \<noteq> (None :: int option) \<and> \<not> (Some 3 \<in> {None, Some (0::int)} \<and> None \<in> {None, Some (0::int)})"
    by simp
  have h4: "cacheResults (options default_engine)" by (simp add: eval_defs)
  have h5: "getCacheKey int_runtime (with_metric ''cosine'' (engine example_first))
         (typedQuery_of int_runtime (NumberArray [1, 2])) 6 no_options
       \<noteq> getCacheKey int_runtime default_engine (typedQuery_of int_runtime (NumberArray [1, 2])) 5 no_options"
    by (simp add: example_first_value) (simp add: eval_defs)
  have h6: "getCacheKey int_runtime (with_metric ''cosine'' (engine example_first))
         (typedQuery_of int_runtime (NumberArray [1, 2])) 6 no_options
       \<notin> fst ` set (entries (resultCache default_engine))"
    by (simp add: default_engine_def new_engine_facts)
  have m: "cacheMisses (stats (engine example_first)) = 1" by (simp add: example_first_value)
  have rq: "backendRequest (with_metric ''cosine'' (engine example_first))
              (typedQuery_of int_runtime (NumberArray [1, 2])) 6 no_options
            = ([1, 2], 6, \<lparr>filter_opt = None, distanceMetric = Some ''cosine'', probes = None, rest = []\<rparr>)"
    by (simp add: example_first_value) (simp add: eval_defs)
  note t = key_sensitivity[where rt=int_runtime and this=default_engine and q="[1, 2]" and ?k1.0=5
      and ?k2.0=6 and opts=no_options and m="''cosine''" and ?p1.0="Some 3" and ?p2.0=None
      and dbA="answering [''a'', ''b'']" and elA=3 and h=empty_heap and query="NumberArray [1, 2]"
      and ?opts2.0=no_options and dbB="answering [''c'']" and elB=1,
      unfolded Let_def, folded example_first_def]
  from t h1 h2 h3 h4 h5 h6 m rq show ?thesis by simp
qed

text \<open>
  The claim as it was stated fails for the probes count: after a call without one, the
  same call with a probes count of 0 has the same key and is answered from the cache.
\<close>

theorem key_sensitivity_counterexample:
  "probes zero_probes \<noteq> probes no_options
   \<and> getCacheKey int_runtime default_engine [1, 2] 5 zero_probes
       = getCacheKey int_runtime default_engine [1, 2] 5 no_options
   \<and> sent (findNearest int_runtime (answering [''c'']) 1 (engine example_first) (store example_first)
             (NumberArray [1, 2]) 5 zero_probes) = None
   \<and> returned (findNearest int_runtime (answering [''c'']) 1 (engine example_first)
             (store example_first) (NumberArray [1, 2]) 5 zero_probes) = Some [''a'', ''b'']
   \<and> cacheMisses (stats (engine (findNearest int_runtime (answering [''c'']) 1 (engine example_first)
             (store example_first) (NumberArray [1, 2]) 5 zero_probes)))
       = cacheMisses (stats (engine example_first))"
  by (simp add: example_first_value) (simp add: eval_defs)

section \<open>What the backend is asked\<close>

text \<open>
  Claim C6, as amended. A call whose key is in the cache, caching being enabled, sends
  nothing to the backend. Every other call sends the typed query, \<open>k\<close> and an options
  object made of the filter and the probes count of the per-call options and of the
  metric of the engine's configuration, whatever metric the per-call options name. No
  other per-call option is part of the request.
\<close>

theorem backend_request:
  "let r = findNearest rt db el this h query k opts;
       cached = (cacheResults (options this)
                 \<and> map_of (entries (resultCache this))
                      (getCacheKey rt this (typedQuery_of rt query) k opts) \<noteq> None)
   in (cached \<longrightarrow> sent r = None)
    \<and> (\<not> cached \<longrightarrow>
         sent r = Some (typedQuery_of rt query, k,
                        \<lparr>filter_opt = filter_opt opts,
                         distanceMetric = Some (metric (options this)),
                         probes = probes opts,
                         rest = []\<rparr>))"
  unfolding Let_def
  by (rule findNearest_cases[where rt=rt and db=db and el=el and this=this and h=h
        and query=query and k=k and opts=opts])
     (simp_all add: backendRequest_def)

theorem backend_request_witness:
  "\<not> (cacheResults (options default_engine)
       \<and> map_of (entries (resultCache default_engine))
            (getCacheKey int_runtime default_engine (typedQuery_of int_runtime (NumberArray [1, 2])) 5
               extra_options) \<noteq> None)
   \<and> sent (findNearest int_runtime (answering [''a'', ''b'']) 3 default_engine empty_heap (NumberArray [1, 2]) 5
             extra_options)
       = Some ([1, 2], 5, \<lparr>filter_opt = None, distanceMetric = Some ''euclidean'', probes = None,
                              rest = []\<rparr>)
   \<and> (cacheResults (options (engine example_first))
       \<and> map_of (entries (resultCache (engine example_first)))
            (getCacheKey int_runtime (engine example_first)
               (typedQuery_of int_runtime (NumberArray [1, 2])) 5 no_options) \<noteq> None)
   \<and> sent (findNearest int_runtime (answering [''c'']) 1 (engine example_first) (store example_first)
             (NumberArray [1, 2]) 5 no_options) = None"
proof -
  have h1: "\<not> (cacheResults (options default_engine)
       \<and> map_of (entries (resultCache default_engine))
            (getCacheKey int_runtime default_engine (typedQuery_of int_runtime (NumberArray [1, 2])) 5
               extra_options) \<noteq> None)"
    by (simp add: default_engine_def new_engine_facts)
  have h2: "cacheResults (options (engine example_first))
       \<and> map_of (entries (resultCache (engine example_first)))
            (getCacheKey int_runtime (engine example_first)
               (typedQuery_of int_runtime (NumberArray [1, 2])) 5 no_options) \<noteq> None"
    by (simp add: example_first_value) (simp add: eval_defs)
  have v: "typedQuery_of int_runtime (NumberArray [1, 2]) = [1, 2]"
    "filter_opt extra_options = None" "probes extra_options = None"
    "metric (options default_engine) = ''euclidean''"
    by (simp_all add: eval_defs)
  note t1 = backend_request[where rt=int_runtime and db="answering [''a'', ''b'']" and el=3
      and this=default_engine and h=empty_heap and query="NumberArray [1, 2]" and k=5
      and opts=extra_options, unfolded Let_def]
  note t2 = backend_request[where rt=int_runtime and db="answering [''c'']" and el=1
      and this="engine example_first" and h="store example_first" and query="NumberArray [1, 2]"
      and k=5 and opts=no_options, unfolded Let_def]
  from t1 h1 have a: "sent (findNearest int_runtime (answering [''a'', ''b'']) 3 default_engine empty_heap
       (NumberArray [1, 2]) 5 extra_options)
       = Some ([1, 2], 5, \<lparr>filter_opt = None, distanceMetric = Some ''euclidean'', probes = None,
                              rest = []\<rparr>)"
    by (simp add: v)
  from t2 h2 have b: "sent (findNearest int_runtime (answering [''c'']) 1 (engine example_first)
       (store example_first) (NumberArray [1, 2]) 5 no_options) = None"
    by blast
  from h1 h2 a b show ?thesis by blast
qed

text \<open>
  The claim as it was stated fails for the other per-call options: a call made with the
  further option \<open>includeMetadata\<close> sends a request without it.
\<close>

theorem backend_request_counterexample:
  "rest extra_options = [(''includeMetadata'', ''true'')]
   \<and> sent (findNearest int_runtime (answering [''a'', ''b'']) 3 default_engine empty_heap (NumberArray [1, 2]) 5
             extra_options)
       = Some ([1, 2], 5, \<lparr>filter_opt = None, distanceMetric = Some ''euclidean'', probes = None,
                              rest = []\<rparr>)"
  by (simp add: eval_defs)

section \<open>Copies in and out of the cache\<close>

lemma refs_valid_iff:
  "refs_valid this h \<longleftrightarrow>
     (\<forall>p\<in>set (entries (resultCache this)).
        snd p < length (arrays h) \<and> (\<forall>r\<in>set (arrays h ! snd p). r < length (objects h)))"
  by (simp add: refs_valid_def list_all_iff)

lemma refs_valid_lookup:
  assumes "refs_valid this h" and "map_of (entries (resultCache this)) key = Some c"
  shows "c < length (arrays h)" and "\<forall>r\<in>set (arrays h ! c). r < length (objects h)"
proof -
  from assms(2) have "(key, c) \<in> set (entries (resultCache this))" by (rule map_of_SomeD)
  with assms(1) have "snd (key, c) < length (arrays h)
      \<and> (\<forall>r\<in>set (arrays h ! snd (key, c)). r < length (objects h))"
    unfolding refs_valid_iff by blast
  then show "c < length (arrays h)" and "\<forall>r\<in>set (arrays h ! c). r < length (objects h)"
    by simp_all
qed

text \<open>
  The references stay valid when the store only grows and the cache gains at most entries
  that are valid in the larger store.
\<close>

lemma refs_valid_grow:
  assumes v: "refs_valid this h"
    and len: "length (arrays h) \<le> length (arrays h')"
    and same: "\<forall>i<length (arrays h). arrays h' ! i = arrays h ! i"
    and objs: "length (objects h) \<le> length (objects h')"
    and ents: "\<forall>p\<in>set (entries (resultCache this')).
                 p \<in> set (entries (resultCache this))
                 \<or> (snd p < length (arrays h')
                     \<and> (\<forall>r\<in>set (arrays h' ! snd p). r < length (objects h')))"
  shows "refs_valid this' h'"
  unfolding refs_valid_iff
proof
  fix p
  assume p: "p \<in> set (entries (resultCache this'))"
  show "snd p < length (arrays h') \<and> (\<forall>r\<in>set (arrays h' ! snd p). r < length (objects h'))"
  proof (cases "p \<in> set (entries (resultCache this))")
    case True
    with v have a: "snd p < length (arrays h)"
      and r: "\<forall>r\<in>set (arrays h ! snd p). r < length (objects h)"
      unfolding refs_valid_iff by blast+
    from a same have "arrays h' ! snd p = arrays h ! snd p" by blast
    with a r len objs show ?thesis by fastforce
  next
    case False
    with p ents show ?thesis by blast
  qed
qed

lemma entries_lru_set_subset:
  "set (entries (lru_set c k v)) \<subseteq> insert (k, v) (set (entries c))"
  by (auto simp: lru_set_def lru_remove_def split: option.splits if_splits dest: in_set_butlastD)

lemma miss_store_simps:
  "arrays (snd (spread (snd (newResults h rs)) (length (arrays h))))
     = arrays h @ [new_refs h rs, new_refs h rs]"
  "objects (snd (spread (snd (newResults h rs)) (length (arrays h)))) = objects h @ rs"
  by (simp_all add: store_simps)

lemma refs_valid_hit:
  assumes v: "refs_valid this h"
    and m: "map_of (entries (resultCache this)) key = Some c"
  shows "refs_valid
           (this\<lparr>resultCache := (resultCache this)\<lparr>entries := (key, c) # lru_remove key (entries (resultCache this))\<rparr>,
                 stats := st\<rparr>)
           (snd (spread h c))"
proof (rule refs_valid_grow[OF v])
  show "length (arrays h) \<le> length (arrays (snd (spread h c)))" by (simp add: spread_simps)
  show "\<forall>i<length (arrays h). arrays (snd (spread h c)) ! i = arrays h ! i"
    by (simp add: spread_simps nth_append)
  show "length (objects h) \<le> length (objects (snd (spread h c)))" by (simp add: spread_simps)
  from m have "(key, c) \<in> set (entries (resultCache this))" by (rule map_of_SomeD)
  moreover have "set (lru_remove key (entries (resultCache this))) \<subseteq> set (entries (resultCache this))"
    by (auto simp: lru_remove_def)
  ultimately show "\<forall>p\<in>set (entries (resultCache
        (this\<lparr>resultCache := (resultCache this)\<lparr>entries := (key, c) # lru_remove key (entries (resultCache this))\<rparr>,
              stats := st\<rparr>))).
      p \<in> set (entries (resultCache this))
      \<or> (snd p < length (arrays (snd (spread h c)))
          \<and> (\<forall>r\<in>set (arrays (snd (spread h c)) ! snd p). r < length (objects (snd (spread h c)))))"
    by auto
qed

lemma refs_valid_miss:
  assumes v: "refs_valid this h"
  shows "refs_valid
           (this\<lparr>resultCache := lru_set (resultCache this) key (Suc (length (arrays h))), stats := st\<rparr>)
           (snd (spread (snd (newResults h rs)) (length (arrays h))))"
proof (rule refs_valid_grow[OF v])
  let ?h' = "snd (spread (snd (newResults h rs)) (length (arrays h)))"
  show "length (arrays h) \<le> length (arrays ?h')" by (simp add: miss_store_simps)
  show "\<forall>i<length (arrays h). arrays ?h' ! i = arrays h ! i"
    by (simp add: miss_store_simps nth_append)
  show "length (objects h) \<le> length (objects ?h')" by (simp add: miss_store_simps)
  have new: "snd (key, Suc (length (arrays h))) < length (arrays ?h')
      \<and> (\<forall>r\<in>set (arrays ?h' ! snd (key, Suc (length (arrays h)))). r < length (objects ?h'))"
    using new_refs_bound[of _ h rs] by (simp add: miss_store_simps nth_append)
  show "\<forall>p\<in>set (entries (resultCache
        (this\<lparr>resultCache := lru_set (resultCache this) key (Suc (length (arrays h))), stats := st\<rparr>))).
      p \<in> set (entries (resultCache this))
      \<or> (snd p < length (arrays ?h') \<and> (\<forall>r\<in>set (arrays ?h' ! snd p). r < length (objects ?h')))"
  proof
    fix p
    assume "p \<in> set (entries (resultCache
        (this\<lparr>resultCache := lru_set (resultCache this) key (Suc (length (arrays h))), stats := st\<rparr>)))"
    then have "p \<in> set (entries (lru_set (resultCache this) key (Suc (length (arrays h)))))" by simp
    with entries_lru_set_subset[of "resultCache this" key "Suc (length (arrays h))"]
    have "p = (key, Suc (length (arrays h))) \<or> p \<in> set (entries (resultCache this))" by blast
    with new show "p \<in> set (entries (resultCache this))
      \<or> (snd p < length (arrays ?h') \<and> (\<forall>r\<in>set (arrays ?h' ! snd p). r < length (objects ?h')))"
      by blast
  qed
qed

lemma refs_valid_newResults:
  assumes v: "refs_valid this h"
  shows "refs_valid (this\<lparr>stats := st\<rparr>) (snd (newResults h rs))"
proof (rule refs_valid_grow[OF v])
  show "length (arrays h) \<le> length (arrays (snd (newResults h rs)))" by (simp add: store_simps)
  show "\<forall>i<length (arrays h). arrays (snd (newResults h rs)) ! i = arrays h ! i"
    by (simp add: store_simps nth_append)
  show "length (objects h) \<le> length (objects (snd (newResults h rs)))" by (simp add: store_simps)
  show "\<forall>p\<in>set (entries (resultCache (this\<lparr>stats := st\<rparr>))).
      p \<in> set (entries (resultCache this))
      \<or> (snd p < length (arrays (snd (newResults h rs)))
          \<and> (\<forall>r\<in>set (arrays (snd (newResults h rs)) ! snd p). r < length (objects (snd (newResults h rs)))))"
    by simp
qed

lemma refs_valid_stats:
  "refs_valid (missed (counted this)) h = refs_valid this h"
  "refs_valid (counted this) h = refs_valid this h"
  by (simp_all add: refs_valid_def engine_simps)

lemma findNearest_refs_valid:
  assumes v: "refs_valid this h"
  shows "refs_valid (engine (findNearest rt db el this h query k opts))
       (store (findNearest rt db el this h query k opts))"
proof (rule findNearest_cases[where rt=rt and db=db and el=el and this=this and h=h
        and query=query and k=k and opts=opts])
  fix c
  assume m: "map_of (entries (resultCache this)) (getCacheKey rt this (typedQuery_of rt query) k opts) = Some c"
    and r: "findNearest rt db el this h query k opts =
      \<lparr>outcome = Inr (length (arrays h)),
         engine = this\<lparr>resultCache := (resultCache this)
                  \<lparr>entries := (getCacheKey rt this (typedQuery_of rt query) k opts, c)
                       # lru_remove (getCacheKey rt this (typedQuery_of rt query) k opts)
                           (entries (resultCache this))\<rparr>,
                stats := recordTime el ((stats this)\<lparr>calls := calls (stats this) + 1,
                                                      cacheHits := cacheHits (stats this) + 1\<rparr>)\<rparr>,
         store = snd (spread h c), sent = None\<rparr>"
  show ?thesis unfolding r using refs_valid_hit[OF v m] by simp
next
  fix rs
  assume r: "findNearest rt db el this h query k opts =
       \<lparr>outcome = Inr (length (arrays h)),
          engine = this\<lparr>resultCache := lru_set (resultCache this)
                 (getCacheKey rt this (typedQuery_of rt query) k opts) (Suc (length (arrays h))),
               stats := recordTime el (stats (missed (counted this)))\<rparr>,
          store = snd (spread (snd (newResults h rs)) (length (arrays h))),
          sent = Some (backendRequest this (typedQuery_of rt query) k opts)\<rparr>"
  show ?thesis unfolding r using refs_valid_miss[OF v] by simp
next
  fix rs
  assume r: "findNearest rt db el this h query k opts =
       \<lparr>outcome = Inr (length (arrays h)),
          engine = this\<lparr>stats := recordTime el (stats (counted this))\<rparr>,
          store = snd (newResults h rs),
          sent = Some (backendRequest this (typedQuery_of rt query) k opts)\<rparr>"
  show ?thesis unfolding r using refs_valid_newResults[OF v] by simp
next
  fix err
  assume r: "findNearest rt db el this h query k opts =
       \<lparr>outcome = Inl err, engine = missed (counted this), store = h,
          sent = Some (backendRequest this (typedQuery_of rt query) k opts)\<rparr>"
  show ?thesis unfolding r using v by (simp add: refs_valid_stats)
next
  fix err
  assume r: "findNearest rt db el this h query k opts =
       \<lparr>outcome = Inl err, engine = counted this, store = h,
          sent = Some (backendRequest this (typedQuery_of rt query) k opts)\<rparr>"
  show ?thesis unfolding r using v by (simp add: refs_valid_stats)
qed

lemma refs_valid_overwrite:
  assumes "refs_valid this h" and "a \<notin> snd ` set (entries (resultCache this))"
  shows "refs_valid this (overwrite h a refs created)"
  unfolding refs_valid_iff
proof
  fix p
  assume p: "p \<in> set (entries (resultCache this))"
  with assms(2) have ne: "snd p \<noteq> a" by force
  from p assms(1) have "snd p < length (arrays h)"
    and "\<forall>r\<in>set (arrays h ! snd p). r < length (objects h)"
    unfolding refs_valid_iff by blast+
  with ne show "snd p < length (arrays (overwrite h a refs created))
      \<and> (\<forall>r\<in>set (arrays (overwrite h a refs created) ! snd p).
             r < length (objects (overwrite h a refs created)))"
    by (fastforce simp: overwrite_def)
qed

lemma contents_overwrite:
  assumes "c \<noteq> a" and "\<forall>r\<in>set (arrays h ! c). r < length (objects h)"
  shows "contents (overwrite h a refs created) c = contents h c"
  using assms by (simp add: contents_def overwrite_def nth_append)

text \<open>
  Claim C8, as amended. With caching enabled, let a call of \<open>findNearest\<close> return an
  array, on a hit or on a miss. That array is not the one the cache holds for the key: on
  a miss the cache received a copy of the backend's array, on a hit the caller received a
  copy of the cached one. So when the caller changes the returned array itself, giving it
  any other elements, and the same call is made again, the call is a hit that returns the
  sequence the first call returned, in an array that is again a new one and not the one
  the cache holds. The copies are of the array and not of the records in it: the returned
  arrays and the cached one refer to the same records.
\<close>

theorem copy_isolation:
  assumes on: "cacheResults (options this)"
    and valid: "refs_valid this h"
    and ok: "outcome (findNearest rt dbA elA this h query k opts) = Inr a"
  shows "let r1 = findNearest rt dbA elA this h query k opts;
             h' = overwrite (store r1) a refs created;
             r2 = findNearest rt dbB elB (engine r1) h' query k opts
         in a \<notin> snd ` set (entries (resultCache (engine r1)))
          \<and> sent r2 = None
          \<and> returned r2 = returned r1
          \<and> outcome r2 \<noteq> Inr a
          \<and> (\<forall>b. outcome r2 = Inr b \<longrightarrow> b \<notin> snd ` set (entries (resultCache (engine r2))))
          \<and> refs_valid (engine r2) (store r2)"
proof -
  let ?key = "getCacheKey rt this (typedQuery_of rt query) k opts"
  let ?r1 = "findNearest rt dbA elA this h query k opts"
  let ?h' = "overwrite (store ?r1) a refs created"
  let ?r2 = "findNearest rt dbB elB (engine ?r1) ?h' query k opts"
  have on1: "cacheResults (options (engine ?r1))" using on by (simp add: findNearest_options)
  have key1: "getCacheKey rt (engine ?r1) (typedQuery_of rt query) k opts = ?key"
    by (rule getCacheKey_options) (simp add: findNearest_options)
  have v1: "refs_valid (engine ?r1) (store ?r1)"
    using valid by (rule findNearest_refs_valid)
  have a_len: "a = length (arrays h) \<and> length (arrays h) < length (arrays (store ?r1))"
    using ok on
    by (rule_tac findNearest_cases[where rt=rt and db=dbA and el=elA and this=this and h=h
        and query=query and k=k and opts=opts])
       (auto simp: store_simps)
  have old: "\<forall>p\<in>set (entries (resultCache this)). snd p \<noteq> length (arrays h)"
    using valid by (auto simp: refs_valid_iff)
  have fresh1: "a \<notin> snd ` set (entries (resultCache (engine ?r1)))
              \<and> (\<exists>c. map_of (entries (resultCache (engine ?r1))) ?key = Some c
                       \<and> returned ?r1 = Some (contents (store ?r1) c))"
  proof (rule findNearest_cases[where rt=rt and db=dbA and el=elA and this=this and h=h
        and query=query and k=k and opts=opts])
    fix c
    assume m: "map_of (entries (resultCache this)) ?key = Some c"
      and r: "?r1 =
      \<lparr>outcome = Inr (length (arrays h)),
         engine = this\<lparr>resultCache := (resultCache this)
                  \<lparr>entries := (?key, c) # lru_remove ?key (entries (resultCache this))\<rparr>,
                stats := recordTime elA ((stats this)\<lparr>calls := calls (stats this) + 1,
                                                      cacheHits := cacheHits (stats this) + 1\<rparr>)\<rparr>,
         store = snd (spread h c), sent = None\<rparr>"
    from valid m have c: "c < length (arrays h)" by (rule refs_valid_lookup)
    have 1: "a \<notin> snd ` set (entries (resultCache (engine ?r1)))"
      using old c a_len by (auto simp: r lru_remove_def)
    have 2: "map_of (entries (resultCache (engine ?r1))) ?key = Some c" by (simp add: r)
    have 3: "returned ?r1 = Some (contents (store ?r1) c)"
      using c by (simp add: r returned_def contents_spread)
    from 1 2 3 show ?thesis by blast
  next
    fix rs
    assume r: "?r1 =
       \<lparr>outcome = Inr (length (arrays h)),
          engine = this\<lparr>resultCache := lru_set (resultCache this) ?key (Suc (length (arrays h))),
               stats := recordTime elA (stats (missed (counted this)))\<rparr>,
          store = snd (spread (snd (newResults h rs)) (length (arrays h))),
          sent = Some (backendRequest this (typedQuery_of rt query) k opts)\<rparr>"
    from old a_len entries_lru_set_subset[of "resultCache this" ?key "Suc (length (arrays h))"]
    have "a \<notin> snd ` set (entries (lru_set (resultCache this) ?key (Suc (length (arrays h)))))"
      by fastforce
    then have 1: "a \<notin> snd ` set (entries (resultCache (engine ?r1)))" by (simp add: r)
    have 2: "map_of (entries (resultCache (engine ?r1))) ?key = Some (Suc (length (arrays h)))"
      by (simp add: r map_of_lru_set_same)
    have 3: "returned ?r1 = Some (contents (store ?r1) (Suc (length (arrays h))))"
      by (simp add: r returned_def contents_miss_store)
    from 1 2 3 show ?thesis by blast
  next
    fix err
    assume "?r1 = \<lparr>outcome = Inl err, engine = missed (counted this), store = h,
                   sent = Some (backendRequest this (typedQuery_of rt query) k opts)\<rparr>"
    with ok show ?thesis by simp
  qed (use on in simp_all)
  then obtain c where fa: "a \<notin> snd ` set (entries (resultCache (engine ?r1)))"
    and m1: "map_of (entries (resultCache (engine ?r1))) ?key = Some c"
    and ret1: "returned ?r1 = Some (contents (store ?r1) c)"
    by blast
  from v1 m1 have c: "c < length (arrays (store ?r1))"
    and cr: "\<forall>r\<in>set (arrays (store ?r1) ! c). r < length (objects (store ?r1))"
    by (rule refs_valid_lookup)+
  from m1 have "(?key, c) \<in> set (entries (resultCache (engine ?r1)))" by (rule map_of_SomeD)
  with fa have ca: "c \<noteq> a" by force
  have v1': "refs_valid (engine ?r1) ?h'" using v1 fa by (rule refs_valid_overwrite)
  have len': "length (arrays ?h') = length (arrays (store ?r1))" by (simp add: overwrite_def)
  from m1 have m1': "map_of (entries (resultCache (engine ?r1)))
      (getCacheKey rt (engine ?r1) (typedQuery_of rt query) k opts) = Some c"
    by (simp add: key1)
  note r2 = findNearest_hit[where db=dbB and el=elB and h="?h'", OF on1 m1']
  have s2: "sent ?r2 = None" by (simp add: r2)
  have "returned ?r2 = Some (contents (snd (spread ?h' c)) (length (arrays ?h')))"
    by (subst r2) (simp add: returned_def)
  also have "contents (snd (spread ?h' c)) (length (arrays ?h')) = contents ?h' c"
    by (rule contents_spread)
  also have "contents ?h' c = contents (store ?r1) c"
    using ca cr by (rule contents_overwrite)
  finally have ret2: "returned ?r2 = returned ?r1" by (simp add: ret1)
  have o2: "outcome ?r2 = Inr (length (arrays (store ?r1)))" by (simp add: r2 len')
  have ne: "outcome ?r2 \<noteq> Inr a" using o2 a_len by simp
  have v2: "refs_valid (engine ?r2) (store ?r2)" using v1' by (rule findNearest_refs_valid)
  have en2: "set (entries (resultCache (engine ?r2)))
               \<subseteq> insert (?key, c) (set (entries (resultCache (engine ?r1))))"
    by (auto simp: r2 key1 lru_remove_def)
  have v1'': "\<forall>p\<in>set (entries (resultCache (engine ?r1))). snd p < length (arrays (store ?r1))"
    using v1 by (simp add: refs_valid_iff)
  have fresh2: "\<forall>b. outcome ?r2 = Inr b \<longrightarrow> b \<notin> snd ` set (entries (resultCache (engine ?r2)))"
    using o2 en2 v1'' c by fastforce
  from fa s2 ret2 ne fresh2 v2 show ?thesis by (simp add: Let_def)
qed

theorem copy_isolation_witness:
  "cacheResults (options default_engine) \<and> refs_valid default_engine empty_heap
   \<and> outcome example_first = Inr 0
   \<and> returned example_first = Some [''a'', ''b'']
   \<and> contents (overwrite (store example_first) 0 [2] [''x'']) 0 = [''x'']
   \<and> sent (findNearest int_runtime (answering [''c'']) 1 (engine example_first)
             (overwrite (store example_first) 0 [2] [''x'']) (NumberArray [1, 2]) 5 no_options) = None
   \<and> returned (findNearest int_runtime (answering [''c'']) 1 (engine example_first)
             (overwrite (store example_first) 0 [2] [''x'']) (NumberArray [1, 2]) 5 no_options)
       = Some [''a'', ''b'']"
proof -
  have h1: "cacheResults (options default_engine)" by (simp add: eval_defs)
  have h2: "refs_valid default_engine empty_heap" by (simp add: refs_valid_def eval_defs)
  have h3: "outcome (findNearest int_runtime (answering [''a'', ''b'']) 3 default_engine empty_heap
                      (NumberArray [1, 2]) 5 no_options) = Inr 0"
    using example_first_value by (simp add: example_first_def)
  note t = copy_isolation[where dbA="answering [''a'', ''b'']" and dbB="answering [''c'']"
      and elB=1 and refs="[2]" and created="[''x'']", OF h1 h2 h3, unfolded Let_def,
      folded example_first_def]
  have o: "outcome example_first = Inr 0" by (simp add: example_first_value)
  have r: "returned example_first = Some [''a'', ''b'']"
    by (simp add: example_first_value returned_def contents_def)
  have m: "contents (overwrite (store example_first) 0 [2] [''x'']) 0 = [''x'']"
    by (simp add: example_first_value contents_def overwrite_def)
  from t have s: "sent (findNearest int_runtime (answering [''c'']) 1 (engine example_first)
             (overwrite (store example_first) 0 [2] [''x'']) (NumberArray [1, 2]) 5 no_options) = None"
    and e: "returned (findNearest int_runtime (answering [''c'']) 1 (engine example_first)
             (overwrite (store example_first) 0 [2] [''x'']) (NumberArray [1, 2]) 5 no_options)
       = returned example_first"
    by blast+
  from h1 h2 o r m s e show ?thesis by simp
qed

text \<open>
  The claim as it was stated fails for a change made to a record of the returned
  sequence: after the first example call, which returned the records \<open>a\<close> and \<open>b\<close>, the
  caller changes the first record through the returned array, and the next call with the
  same arguments, a hit, returns the changed record.
\<close>

theorem copy_isolation_counterexample:
  "outcome example_first = Inr 0
   \<and> arrays (store example_first) ! 0 = [0, 1]
   \<and> returned example_first = Some [''a'', ''b'']
   \<and> sent (findNearest int_runtime (answering [''c'']) 1 (engine example_first)
             (mutate (store example_first) 0 ''x'') (NumberArray [1, 2]) 5 no_options) = None
   \<and> returned (findNearest int_runtime (answering [''c'']) 1 (engine example_first)
             (mutate (store example_first) 0 ''x'') (NumberArray [1, 2]) 5 no_options)
       = Some [''x'', ''b'']"
  by (simp add: example_first_value) (simp add: eval_defs mutate_def)

lemma butlast_keys:
  assumes "distinct (map fst es)" and "es \<noteq> []"
  shows "fst ` set (butlast es) = fst ` set es - {fst (last es)}"
proof -
  from assms(2) have e: "es = butlast es @ [last es]" by simp
  from assms(1) have "distinct (map fst (butlast es @ [last es]))" by (simp only: e[symmetric])
  then have "fst (last es) \<notin> fst ` set (butlast es)" by simp
  moreover have "fst ` set es = insert (fst (last es)) (fst ` set (butlast es))"
    by (subst e) simp
  ultimately show ?thesis by auto
qed

lemma lru_set_evicts:
  assumes "lru_inv c" and "lru_size c = max_entries c" and "map_of (entries c) k = None"
  shows "entries (lru_set c k v) = (k, v) # butlast (entries c)"
    and "fst ` set (entries (lru_set c k v))
           = insert k (fst ` set (entries c) - {fst (last (entries c))})"
proof -
  from assms(1,2) have ne: "entries c \<noteq> []" by (auto simp: lru_inv_def lru_size_def)
  from assms show e: "entries (lru_set c k v) = (k, v) # butlast (entries c)"
    by (simp add: lru_set_def lru_size_def)
  from assms(1) have "distinct (map fst (entries c))" by (simp add: lru_inv_def)
  from butlast_keys[OF this ne] show "fst ` set (entries (lru_set c k v))
           = insert k (fst ` set (entries c) - {fst (last (entries c))})"
    by (simp add: e)
qed

lemma max_entries_fold: "max_entries (foldl lru_apply c xs) = max_entries c"
proof (induction xs arbitrary: c)
  case Nil
  show ?case by simp
next
  case (Cons x xs)
  show ?case by (cases x) (simp_all add: Cons.IH max_entries_lru_get max_entries_lru_set)
qed

lemma lru_size_bound: "lru_inv c \<Longrightarrow> lru_size c \<le> max_entries c"
  by (simp add: lru_inv_def lru_size_def)

lemma cache_ok_new: "cache_ok (KNNEngineSearch_new kopts)"
  by (simp add: cache_ok_def KNNEngineSearch_new_def lru_inv_new) (simp add: lru_new_def)

lemma findNearest_cache_ok:
  "cache_ok this \<Longrightarrow> cache_ok (engine (findNearest rt db el this h query k opts))"
proof (rule findNearest_cases[where rt=rt and db=db and el=el and this=this and h=h
        and query=query and k=k and opts=opts])
  fix c
  assume ok: "cache_ok this"
    and m: "map_of (entries (resultCache this)) (getCacheKey rt this (typedQuery_of rt query) k opts) = Some c"
    and r: "findNearest rt db el this h query k opts =
      \<lparr>outcome = Inr (length (arrays h)),
         engine = this\<lparr>resultCache := (resultCache this)
                  \<lparr>entries := (getCacheKey rt this (typedQuery_of rt query) k opts, c)
                       # lru_remove (getCacheKey rt this (typedQuery_of rt query) k opts)
                           (entries (resultCache this))\<rparr>,
                stats := recordTime el ((stats this)\<lparr>calls := calls (stats this) + 1,
                                                      cacheHits := cacheHits (stats this) + 1\<rparr>)\<rparr>,
         store = snd (spread h c), sent = None\<rparr>"
  have "(resultCache this)\<lparr>entries := (getCacheKey rt this (typedQuery_of rt query) k opts, c)
                       # lru_remove (getCacheKey rt this (typedQuery_of rt query) k opts)
                           (entries (resultCache this))\<rparr>
        = snd (lru_get (resultCache this) (getCacheKey rt this (typedQuery_of rt query) k opts))"
    by (simp add: lru_get_hit[OF m])
  with ok show ?thesis
    by (simp add: r cache_ok_def lru_inv_get max_entries_lru_get)
qed (simp_all add: cache_ok_def lru_inv_set max_entries_lru_set engine_simps)

lemma run_cache_ok: "cache_ok this \<Longrightarrow> cache_ok (fst (run rt cs (this, h)))"
proof (induction cs arbitrary: this h)
  case Nil
  then show ?case by simp
next
  case (Cons c cs)
  then show ?case by (simp add: Let_def findNearest_cache_ok)
qed

lemma example_cache_value:
  "example_cache = \<lparr>entries = [(''A'', 1), (''B'', 2)], max_entries = 2\<rparr>"
  by (simp add: example_cache_def lru_new_def lru_get_def lru_set_def lru_remove_def)

section \<open>The bound on the cache\<close>

text \<open>
  Claim C7. The result cache never holds more entries than its capacity, whatever
  sequence of insertions and accesses it goes through, and the cache of an engine, which
  the constructor creates with capacity 1000, never holds more than 1000 entries, whatever
  calls are made. An insertion is a total operation: it returns a cache and never an
  error. Inserting a new key into a full cache removes the entry at the end of the recency
  order, the least recently used one, and keeps all the others; an access moves the entry
  to the front of that order. With capacity 2, inserting \<open>A\<close>, inserting \<open>B\<close>, accessing
  \<open>A\<close> and inserting \<open>C\<close> leaves \<open>C\<close> and \<open>A\<close>.
\<close>

theorem lru_eviction_bound:
  "(0 < cap \<longrightarrow> lru_size (foldl lru_apply (lru_new cap) ops) \<le> cap)
   \<and> (lru_inv c \<longrightarrow> lru_size (foldl lru_apply c ops) \<le> max_entries c)
   \<and> (lru_inv c \<and> lru_size c = max_entries c \<and> map_of (entries c) k = None \<longrightarrow>
        entries (lru_set c k v) = (k, v) # butlast (entries c)
        \<and> fst ` set (entries (lru_set c k v))
            = insert k (fst ` set (entries c) - {fst (last (entries c))}))
   \<and> (map_of (entries c) k = Some v \<longrightarrow>
        lru_get c k = (Some v, c\<lparr>entries := (k, v) # lru_remove k (entries c)\<rparr>))
   \<and> lru_size (resultCache (fst (run rt cs (KNNEngineSearch_new kopts, h)))) \<le> 1000
   \<and> entries (foldl lru_apply (lru_new 2)
        [Set ''A'' (1::nat), Set ''B'' 2, Get ''A'', Set ''C'' 3]) = [(''C'', 3), (''A'', 1)]"
proof -
  have a: "0 < cap \<longrightarrow> lru_size (foldl lru_apply (lru_new cap :: ('a, 'b) LRUCache) ops) \<le> cap"
  proof
    assume "0 < cap"
    then have "lru_inv (foldl lru_apply (lru_new cap :: ('a, 'b) LRUCache) ops)"
      by (intro lru_inv_fold lru_inv_new)
    then have "lru_size (foldl lru_apply (lru_new cap :: ('a, 'b) LRUCache) ops)
                 \<le> max_entries (foldl lru_apply (lru_new cap :: ('a, 'b) LRUCache) ops)"
      by (rule lru_size_bound)
    then show "lru_size (foldl lru_apply (lru_new cap :: ('a, 'b) LRUCache) ops) \<le> cap"
      by (simp add: max_entries_fold lru_new_def)
  qed
  have b: "lru_inv c \<longrightarrow> lru_size (foldl lru_apply c ops) \<le> max_entries c"
    using lru_size_bound[OF lru_inv_fold, of c ops] by (simp add: max_entries_fold)
  have c: "lru_inv c \<and> lru_size c = max_entries c \<and> map_of (entries c) k = None \<longrightarrow>
        entries (lru_set c k v) = (k, v) # butlast (entries c)
        \<and> fst ` set (entries (lru_set c k v))
            = insert k (fst ` set (entries c) - {fst (last (entries c))})"
    using lru_set_evicts[of c k v] by blast
  have d: "map_of (entries c) k = Some v \<longrightarrow>
        lru_get c k = (Some v, c\<lparr>entries := (k, v) # lru_remove k (entries c)\<rparr>)"
    by (simp add: lru_get_hit)
  have e: "lru_size (resultCache (fst (run rt cs (KNNEngineSearch_new kopts, h)))) \<le> 1000"
    using run_cache_ok[OF cache_ok_new, of rt cs kopts h] lru_size_bound
    by (fastforce simp: cache_ok_def)
  have f: "entries (foldl lru_apply (lru_new 2)
        [Set ''A'' (1::nat), Set ''B'' 2, Get ''A'', Set ''C'' 3]) = [(''C'', 3), (''A'', 1)]"
    by (simp add: lru_new_def lru_get_def lru_set_def lru_remove_def)
  from a b c d e f show ?thesis by blast
qed

theorem lru_eviction_bound_witness:
  "(0::nat) < 2
   \<and> lru_size (foldl lru_apply (lru_new 2)
        [Set ''A'' (1::nat), Set ''B'' 2, Get ''A'', Set ''C'' 3, Set ''D'' 4, Set ''E'' 5]) \<le> 2
   \<and> lru_inv example_cache \<and> lru_size example_cache = max_entries example_cache
   \<and> map_of (entries example_cache) ''C'' = None
   \<and> entries (lru_set example_cache ''C'' 3) = [(''C'', 3), (''A'', 1)]
   \<and> fst ` set (entries (lru_set example_cache ''C'' 3)) = {''C'', ''A''}
   \<and> map_of (entries example_cache) ''B'' = Some 2
   \<and> lru_get example_cache ''B'' = (Some 2, \<lparr>entries = [(''B'', 2), (''A'', 1)], max_entries = 2\<rparr>)"
proof -
  have h1: "(0::nat) < 2" by simp
  have h2: "lru_inv example_cache" by (simp add: example_cache_value lru_inv_def)
  have h3: "lru_size example_cache = max_entries example_cache"
    by (simp add: example_cache_value lru_size_def)
  have h4: "map_of (entries example_cache) ''C'' = None" by (simp add: example_cache_value)
  have h5: "map_of (entries example_cache) ''B'' = Some 2" by (simp add: example_cache_value)
  note t1 = lru_eviction_bound[where cap=2 and c=example_cache and k="''C''" and v=3
      and ops="[Set ''A'' (1::nat), Set ''B'' 2, Get ''A'', Set ''C'' 3, Set ''D'' 4, Set ''E'' 5]"]
  note t2 = lru_eviction_bound[where c=example_cache and k="''B''" and v=2]
  from t1 h1 have a: "lru_size (foldl lru_apply (lru_new 2)
        [Set ''A'' (1::nat), Set ''B'' 2, Get ''A'', Set ''C'' 3, Set ''D'' 4, Set ''E'' 5]) \<le> 2"
    by blast
  from t1 h2 h3 h4 have b: "entries (lru_set example_cache ''C'' 3) = (''C'', 3) # butlast (entries example_cache)"
    and c: "fst ` set (entries (lru_set example_cache ''C'' 3))
            = insert ''C'' (fst ` set (entries example_cache) - {fst (last (entries example_cache))})"
    by blast+
  from t2 h5 have d: "lru_get example_cache ''B''
       = (Some 2, example_cache\<lparr>entries := (''B'', 2) # lru_remove ''B'' (entries example_cache)\<rparr>)"
    by blast
  from b have b': "entries (lru_set example_cache ''C'' 3) = [(''C'', 3), (''A'', 1)]"
    by (simp add: example_cache_value)
  have "insert ''C'' (fst ` set (entries example_cache) - {fst (last (entries example_cache))})
          = {''C'', ''A''}"
    by (auto simp: example_cache_value)
  with c have c': "fst ` set (entries (lru_set example_cache ''C'' 3)) = {''C'', ''A''}"
    by simp
  from d have d': "lru_get example_cache ''B'' = (Some 2, \<lparr>entries = [(''B'', 2), (''A'', 1)], max_entries = 2\<rparr>)"
    by (simp add: example_cache_value lru_remove_def)
  from h1 a h2 h3 h4 b' c' h5 d' show ?thesis by blast
qed

section \<open>The filter in the cache key\<close>

text \<open>
  Claim C4. The cache key is the query hash, \<open>k\<close>, the metric, the filter field and the
  probes field, in this order. The filter field is the fixed text \<open>noFilter\<close> when the
  per-call options have no filter, and otherwise \<open>filterHash:\<close> followed by the length
  of the filter's text. So two filters whose texts are equally long give the same key when
  everything else is equal.
\<close>

theorem filter_fingerprint:
  "(filter_opt opts = None \<longrightarrow> filterInfo rt opts = ''noFilter'')
   \<and> (filter_opt opts = Some f \<longrightarrow>
        filterInfo rt opts = ''filterHash:'' @ show_nat (length (toString rt f)))
   \<and> getCacheKey rt this q k opts
       = queryHash rt q @ ''_k'' @ show_int k @ ''_'' @ metric (options this) @ ''_''
           @ filterInfo rt opts @ ''_'' @ probesInfo opts
   \<and> (length (toString rt f1) = length (toString rt f2) \<longrightarrow>
        getCacheKey rt this q k (opts\<lparr>filter_opt := Some f1\<rparr>)
          = getCacheKey rt this q k (opts\<lparr>filter_opt := Some f2\<rparr>))"
  by (simp add: getCacheKey_def filterInfo_def probesInfo_def)

theorem filter_fingerprint_witness:
  "filter_opt no_options = None \<and> filterInfo int_runtime no_options = ''noFilter''
   \<and> filter_opt (no_options\<lparr>filter_opt := Some filter_gt\<rparr>) = Some filter_gt
   \<and> filterInfo int_runtime (no_options\<lparr>filter_opt := Some filter_gt\<rparr>) = ''filterHash:15''
   \<and> filter_gt \<noteq> filter_lt
   \<and> length (toString int_runtime filter_gt) = length (toString int_runtime filter_lt)
   \<and> getCacheKey int_runtime default_engine [1, 2] 5 (no_options\<lparr>filter_opt := Some filter_gt\<rparr>)
       = getCacheKey int_runtime default_engine [1, 2] 5 (no_options\<lparr>filter_opt := Some filter_lt\<rparr>)
   \<and> getCacheKey int_runtime default_engine [1, 2] 5 (no_options\<lparr>filter_opt := Some filter_lt\<rparr>)
       = ''1.0000,2.0000_k5_euclidean_filterHash:15_''"
proof -
  have h1: "filter_opt no_options = None" by (simp add: no_options_def)
  have h2: "filter_opt (no_options\<lparr>filter_opt := Some filter_gt\<rparr>) = Some filter_gt" by simp
  have h3: "length (toString int_runtime filter_gt) = length (toString int_runtime filter_lt)"
    by (simp add: int_runtime_def filter_gt_def filter_lt_def)
  have h4: "filter_gt \<noteq> filter_lt" by (simp add: filter_gt_def filter_lt_def)
  note t1 = filter_fingerprint[where opts=no_options and rt=int_runtime]
  note t2 = filter_fingerprint[where opts="no_options\<lparr>filter_opt := Some filter_gt\<rparr>"
      and rt=int_runtime and f=filter_gt]
  note t3 = filter_fingerprint[where opts=no_options and rt=int_runtime and ?f1.0=filter_gt
      and ?f2.0=filter_lt and this=default_engine and q="[1, 2]" and k=5]
  from t1 h1 have a: "filterInfo int_runtime no_options = ''noFilter''" by blast
  from t2 h2 have "filterInfo int_runtime (no_options\<lparr>filter_opt := Some filter_gt\<rparr>)
      = ''filterHash:'' @ show_nat (length (toString int_runtime filter_gt))" by blast
  then have b: "filterInfo int_runtime (no_options\<lparr>filter_opt := Some filter_gt\<rparr>) = ''filterHash:15''"
    by (simp add: int_runtime_def filter_gt_def digit_char_def)
  from t3 h3 have c: "getCacheKey int_runtime default_engine [1, 2] 5 (no_options\<lparr>filter_opt := Some filter_gt\<rparr>)
       = getCacheKey int_runtime default_engine [1, 2] 5 (no_options\<lparr>filter_opt := Some filter_lt\<rparr>)"
    by blast
  have d: "getCacheKey int_runtime default_engine [1, 2] 5 (no_options\<lparr>filter_opt := Some filter_lt\<rparr>)
       = ''1.0000,2.0000_k5_euclidean_filterHash:15_''"
    by (simp add: eval_defs filter_lt_def)
  from h1 a h2 b h4 h3 c d show ?thesis by blast
qed

end
